theory Spec2Isabelle
  imports Complex_Main "HOL-Library.Sublist"
begin

section \<open>Python values used by \<open>main.py\<close>\<close>

text \<open>
  Strings are lists of characters. A character stands for a code point below 256
  (Latin-1), the range on which \<open>str.lower()\<close> maps one character to one character;
  strings with other code points are outside the model. Every exception the modelled
  code can raise is a value of \<open>py_error\<close>, and a function that can raise returns
  \<open>py_error + 'a\<close>. \<open>ReadError\<close> stands for any exception raised while a store
  is opened and decoded (\<open>sqlite3\<close>, \<open>json\<close>, the file system).
\<close>

datatype py_error = IndexError | KeyError | TypeError | AttributeError | ReadError

text \<open>\<open>xs[i]\<close>: a negative index counts from the end, an index out of range raises.\<close>

definition py_index :: "'a list \<Rightarrow> int \<Rightarrow> py_error + 'a" where
  "py_index xs i =
     (if 0 \<le> i \<and> i < int (length xs) then Inr (xs ! nat i)
      else if i < 0 \<and> - int (length xs) \<le> i then Inr (xs ! nat (int (length xs) + i))
      else Inl IndexError)"

text \<open>\<open>str.lower()\<close> on one character: A-Z and the Latin-1 capitals move up by 32.\<close>

definition py_lower_char :: "char \<Rightarrow> char" where
  "py_lower_char c =
     (let n = (of_char c :: nat)
      in if (65 \<le> n \<and> n \<le> 90) \<or> (192 \<le> n \<and> n \<le> 222 \<and> n \<noteq> 215)
         then char_of (n + 32) else c)"

definition py_lower :: "string \<Rightarrow> string" where
  "py_lower s = map py_lower_char s"

text \<open>\<open>sep.join(xs)\<close>.\<close>

fun py_join :: "string \<Rightarrow> string list \<Rightarrow> string" where
  "py_join sep [] = []"
| "py_join sep [x] = x"
| "py_join sep (x # y # ys) = x @ sep @ py_join sep (y # ys)"

text \<open>
  \<open>s.find(c, start)\<close> for a one-character \<open>c\<close>: the lowest index at or after
  \<open>start\<close> that holds \<open>c\<close>; Python's \<open>-1\<close> is \<open>None\<close>.
\<close>

primrec index_of :: "'a \<Rightarrow> 'a list \<Rightarrow> nat option" where
  "index_of c [] = None"
| "index_of c (x # xs) = (if x = c then Some 0 else map_option Suc (index_of c xs))"

definition py_find :: "'a list \<Rightarrow> 'a \<Rightarrow> nat \<Rightarrow> nat option" where
  "py_find s c start = map_option (\<lambda>i. start + i) (index_of c (drop start s))"

text \<open>\<open>s.split(sep)\<close> for a one-character separator: never the empty list.\<close>

fun py_split :: "char \<Rightarrow> string \<Rightarrow> string list" where
  "py_split sep [] = [[]]"
| "py_split sep (c # cs) =
     (if c = sep then [] # py_split sep cs
      else (case py_split sep cs of
              [] \<Rightarrow> [[c]]
            | w # ws \<Rightarrow> (c # w) # ws))"

section \<open>The scorer: \<open>command_score\<close>\<close>

text \<open>
  The score constants of lines 34-40. Scores are Python floats; the model computes with
  real numbers, so rounding is not modelled.
\<close>

definition SCORE_CONTINUE_MATCH :: real where "SCORE_CONTINUE_MATCH = 1"
definition SCORE_SPACE_WORD_JUMP :: real where "SCORE_SPACE_WORD_JUMP = 0.9"
definition SCORE_NON_SPACE_WORD_JUMP :: real where "SCORE_NON_SPACE_WORD_JUMP = 0.8"
definition SCORE_CHARACTER_JUMP :: real where "SCORE_CHARACTER_JUMP = 0.17"
definition PENALTY_SKIPPED :: real where "PENALTY_SKIPPED = 0.999"
definition PENALTY_CASE_MISMATCH :: real where "PENALTY_CASE_MISMATCH = 0.9999"

text \<open>
  \<open>IS_GAP_REGEXP\<close> matches one of \<open>\ / _ + . # " @ [ ( { &\<close> (code points 92, 47,
  95, 43, 46, 35, 34, 64, 91, 40, 123, 38). \<open>IS_SPACE_REGEXP\<close> matches \<open>\s\<close> or a
  hyphen (45); on a \<open>str\<close> pattern \<open>\s\<close> is Unicode white space, which below 256
  is 9-13, 28-32, 133 and 160.
\<close>

definition IS_GAP_REGEXP :: "char \<Rightarrow> bool" where
  "IS_GAP_REGEXP c \<longleftrightarrow>
     (of_char c :: nat) \<in> {92, 47, 95, 43, 46, 35, 34, 64, 91, 40, 123, 38}"

definition IS_SPACE_REGEXP :: "char \<Rightarrow> bool" where
  "IS_SPACE_REGEXP c \<longleftrightarrow>
     (let n = (of_char c :: nat)
      in (9 \<le> n \<and> n \<le> 13) \<or> (28 \<le> n \<and> n \<le> 32) \<or> n = 133 \<or> n = 160 \<or> n = 45)"

text \<open>
  Lines 73-85, the factor for the place of a match: \<open>temp_score\<close> after the
  \<open>if/elif/else\<close> chain. \<open>index\<close> is the match, \<open>string_index\<close> where the search
  began. \<open>x powi k\<close> is \<open>x ** k\<close> for an integer \<open>k\<close> of either sign.
\<close>

definition jump_score :: "string \<Rightarrow> nat \<Rightarrow> nat \<Rightarrow> real \<Rightarrow> py_error + real" where
  "jump_score lower_string string_index index temp_score =
     (if index = string_index then Inr (temp_score * SCORE_CONTINUE_MATCH)
      else (case py_index lower_string (int index - 1) of
              Inl e \<Rightarrow> Inl e
            | Inr previous \<Rightarrow>
                if IS_SPACE_REGEXP previous then Inr (temp_score * SCORE_SPACE_WORD_JUMP)
                else if IS_GAP_REGEXP previous then Inr (temp_score * SCORE_NON_SPACE_WORD_JUMP)
                else (let t = temp_score * SCORE_CHARACTER_JUMP
                      in if string_index > 0
                         then Inr (t * PENALTY_SKIPPED powi (int index - int string_index))
                         else Inr t)))"

text \<open>Lines 87-89, the case mismatch penalty; \<open>string[index]\<close> can raise.\<close>

definition case_penalty :: "string \<Rightarrow> string \<Rightarrow> nat \<Rightarrow> nat \<Rightarrow> real \<Rightarrow> py_error + real" where
  "case_penalty string abbreviation index abbr_index temp_score =
     (case py_index string (int index) of
        Inl e \<Rightarrow> Inl e
      | Inr sc \<Rightarrow>
          (case py_index abbreviation (int abbr_index) of
             Inl e \<Rightarrow> Inl e
           | Inr ac \<Rightarrow>
               Inr (if sc \<noteq> ac then temp_score * PENALTY_CASE_MISMATCH else temp_score)))"

text \<open>
  The inner function \<open>score\<close> (lines 51-100) with the variables of the enclosing call
  as its first four arguments and the memo dictionary passed through every call and
  returned. \<open>score_loop\<close> is the \<open>while\<close> loop of lines 70-96: \<open>start\<close> is the
  position the next \<open>find\<close> searches from (\<open>string_index\<close> at first, \<open>index + 1\<close>
  afterwards). An exception leaves the whole call, so no memo is returned with it.
\<close>

type_synonym memo = "nat \<times> nat \<rightharpoonup> real"

function score ::
    "string \<Rightarrow> string \<Rightarrow> string \<Rightarrow> string \<Rightarrow> nat \<Rightarrow> nat \<Rightarrow> memo \<Rightarrow> py_error + real \<times> memo"
  and score_loop ::
    "string \<Rightarrow> string \<Rightarrow> string \<Rightarrow> string \<Rightarrow> nat \<Rightarrow> nat \<Rightarrow> char \<Rightarrow> nat \<Rightarrow> real \<Rightarrow> memo
       \<Rightarrow> py_error + real \<times> memo"
where
  "score string abbreviation lower_string lower_abbreviation string_index abbr_index memo =
     (case memo (string_index, abbr_index) of
        Some v \<Rightarrow> Inr (v, memo)
      | None \<Rightarrow>
          if abbr_index = length abbreviation
          then Inr (if string_index = length string then SCORE_CONTINUE_MATCH else 0.99, memo)
          else (case py_index lower_abbreviation (int abbr_index) of
                  Inl e \<Rightarrow> Inl e
                | Inr abbreviation_char \<Rightarrow>
                    (case score_loop string abbreviation lower_string lower_abbreviation
                            string_index abbr_index abbreviation_char string_index 0 memo of
                       Inl e \<Rightarrow> Inl e
                     | Inr (high_score, memo') \<Rightarrow>
                         Inr (high_score,
                              memo'((string_index, abbr_index) \<mapsto> high_score)))))"
| "score_loop string abbreviation lower_string lower_abbreviation string_index abbr_index
       abbreviation_char start high_score memo =
     (case py_find lower_string abbreviation_char start of
        None \<Rightarrow> Inr (high_score, memo)
      | Some index \<Rightarrow>
          (case score string abbreviation lower_string lower_abbreviation
                  (index + 1) (abbr_index + 1) memo of
             Inl e \<Rightarrow> Inl e
           | Inr (temp_score, memo') \<Rightarrow>
               (case jump_score lower_string string_index index temp_score of
                  Inl e \<Rightarrow> Inl e
                | Inr jumped \<Rightarrow>
                    (case case_penalty string abbreviation index abbr_index jumped of
                       Inl e \<Rightarrow> Inl e
                     | Inr penalised \<Rightarrow>
                         score_loop string abbreviation lower_string lower_abbreviation
                           string_index abbr_index abbreviation_char (index + 1)
                           (if penalised > high_score then penalised else high_score)
                           memo'))))"
  by pat_completeness auto

termination
proof -
  have index_bound: "i < length xs" if "index_of c xs = Some i" for c :: char and xs i
    using that by (induction xs arbitrary: i) (auto split: if_splits)
  have found: "start \<le> i \<and> i < length s" if "py_find s c start = Some i"
    for s and c :: char and start i
    using that by (auto simp: py_find_def dest!: index_bound)
  show ?thesis
    by (relation "measure (\<lambda>x. case x of
            Inl (s, a, ls, la, si, ai, m) \<Rightarrow> 2 * (length ls + 1 - si) + 1
          | Inr (s, a, ls, la, si, ai, c, start, h, m) \<Rightarrow> 2 * (length ls + 1 - start))")
       (auto dest!: found)
qed

text \<open>
  \<open>command_score(string, abbreviation, aliases)\<close>, lines 29-103; \<open>aliases=None\<close> is
  the empty list. The first call of \<open>score\<close> starts from an empty memo.
\<close>

definition command_score :: "string \<Rightarrow> string \<Rightarrow> string list \<Rightarrow> py_error + real" where
  "command_score string abbreviation aliases =
     (let lower_string = py_lower (string @ '' '' @ py_join '' '' aliases);
          lower_abbreviation = py_lower abbreviation
      in map_sum id fst
           (score string abbreviation lower_string lower_abbreviation 0 0 Map.empty))"

text \<open>
  The invariant of the memo dictionary used in the proofs about \<open>score\<close>: every stored
  score lies between 0 and 1, and it is 1 at equal positions when the query is the
  candidate itself.
\<close>

definition memo_ok :: "string \<Rightarrow> string \<Rightarrow> memo \<Rightarrow> bool" where
  "memo_ok s a memo \<longleftrightarrow>
     (\<forall>si ai v. memo (si, ai) = Some v \<longrightarrow> 0 \<le> v \<and> v \<le> 1 \<and> (a = s \<and> si = ai \<longrightarrow> v = 1))"

section \<open>Entries and the loader's normalisation\<close>

text \<open>
  A raw record is a decoded JSON object. A key is a field, \<open>None\<close> when the object
  lacks it; the values have the types of the store's format (strings, and for
  \<open>workspace\<close> an object that may hold \<open>configPath\<close>). Keys the code never reads are
  left out. \<open>raw_label\<close> is the key \<open>label\<close>.
\<close>

record workspace_ref =
  configPath :: "string option"

record raw_entry =
  folderUri :: "string option"
  fileUri :: "string option"
  workspace :: "workspace_ref option"
  raw_label :: "string option"

text \<open>The dictionary \<open>parse_entry_paths\<close> builds for one record (lines 264-270).\<close>

record entry =
  uri :: string
  label :: string
  icon :: string
  option :: string
  type :: string

definition make_entry :: "raw_entry \<Rightarrow> string \<Rightarrow> string \<Rightarrow> string \<Rightarrow> string \<Rightarrow> entry" where
  "make_entry path u i opt entry_type =
     \<lparr>uri = u,
      label = (case raw_label path of
                 Some l \<Rightarrow> l
               | None \<Rightarrow> last (py_split CHR ''/'' u)),
      icon = i, option = opt, type = entry_type\<rparr>"

text \<open>
  One turn of the loop of lines 241-271: \<open>Inr None\<close> is the \<open>continue\<close> of an
  unrecognised record, \<open>Inl KeyError\<close> the missing \<open>configPath\<close>.
\<close>

definition parse_entry :: "raw_entry \<Rightarrow> py_error + entry option" where
  "parse_entry path =
     (case folderUri path of
        Some u \<Rightarrow> Inr (Some (make_entry path u ''icon'' ''--folder-uri'' ''folder''))
      | None \<Rightarrow>
          (case fileUri path of
             Some u \<Rightarrow> Inr (Some (make_entry path u ''file'' ''--file-uri'' ''file''))
           | None \<Rightarrow>
               (case workspace path of
                  Some w \<Rightarrow>
                    (case configPath w of
                       None \<Rightarrow> Inl KeyError
                     | Some u \<Rightarrow>
                         Inr (Some (make_entry path u ''workspace'' ''--file-uri''
                                      ''workspace'')))
                | None \<Rightarrow> Inr None)))"

fun parse_loop :: "raw_entry list \<Rightarrow> entry list \<Rightarrow> py_error + entry list" where
  "parse_loop [] recents = Inr recents"
| "parse_loop (path # entries) recents =
     (case parse_entry path of
        Inl e \<Rightarrow> Inl e
      | Inr None \<Rightarrow> parse_loop entries recents
      | Inr (Some recent) \<Rightarrow> parse_loop entries (recents @ [recent]))"

text \<open>
  Line 276. \<open>include_types\<close> is \<open>None\<close> until the preferences arrive; then
  \<open>recent["type"] in include_types\<close> raises, which needs a first \<open>recent\<close>.
\<close>

definition filter_types :: "entry list \<Rightarrow> string list option \<Rightarrow> py_error + entry list" where
  "filter_types recents include_types =
     (if recents = [] then Inr []
      else (case include_types of
              None \<Rightarrow> Inl TypeError
            | Some types \<Rightarrow> Inr (filter (\<lambda>recent. type recent \<in> set types) recents)))"

definition parse_entry_paths ::
    "raw_entry list \<Rightarrow> string list option \<Rightarrow> py_error + entry list" where
  "parse_entry_paths entries include_types =
     (case parse_loop entries [] of
        Inl e \<Rightarrow> Inl e
      | Inr recents \<Rightarrow> filter_types recents include_types)"

section \<open>The file system and the class \<open>Code\<close>\<close>

text \<open>
  What the code sees of the outside during one call: which paths exist, and what
  opening and decoding a store gives, an exception or the list under \<open>entries\<close>.
  \<open>read_global_state\<close> stands for lines 214-221 (the \<open>sqlite3\<close> query for the key
  \<open>history.recentlyOpenedPathsList\<close>, \<open>json.loads\<close>, \<open>["entries"]\<close>) and
  \<open>read_legacy\<close> for lines 232-233.
\<close>

record world =
  path_exists :: "string \<Rightarrow> bool"
  read_global_state :: "string \<Rightarrow> py_error + raw_entry list"
  read_legacy :: "string \<Rightarrow> py_error + raw_entry list"

text \<open>
  \<open>path / name\<close> of \<open>pathlib\<close>, for a normalised path and a plain name: only the
  root ends with a slash.
\<close>

definition path_join :: "string \<Rightarrow> string \<Rightarrow> string" where
  "path_join p name = (if p = ''/'' then p @ name else p @ ''/'' @ name)"

definition path_dirs :: "string list" where
  "path_dirs = [''/usr/bin'', ''/bin'', ''/snap/bin'']"

definition variants :: "string list" where
  "variants = [''Code'', ''Codium'']"

text \<open>
  The instance attributes of \<open>Code\<close>. \<open>prefer_type\<close> of \<open>Code\<close> stays \<open>None\<close> and is
  only copied to an unused local, so it is left out.
\<close>

record code =
  installed_path :: "string option"
  config_path :: "string option"
  global_state_db :: "string option"
  storage_json :: "string option"
  include_types :: "string list option"

definition unresolved :: code where
  "unresolved =
     \<lparr>installed_path = None, config_path = None, global_state_db = None,
      storage_json = None, include_types = None\<rparr>"

text \<open>
  \<open>Code.__init__\<close>, lines 126-172: the inner loop over the variants for one directory,
  the outer loop over the directories; \<open>Some\<close> is the \<open>return\<close> of line 170.
  \<open>home\<close> is \<open>pathlib.Path.home()\<close>.
\<close>

fun init_variants :: "world \<Rightarrow> string \<Rightarrow> string \<Rightarrow> string list \<Rightarrow> code option" where
  "init_variants w home path [] = None"
| "init_variants w home path (variant # rest) =
     (let installed = path_join path (py_lower variant)
      in if \<not> path_exists w installed then init_variants w home path rest
         else
           (let variant_config = (if variant = ''Codium'' then ''VSCodium'' else variant);
                config = path_join (path_join home ''.config'') variant_config;
                storage = path_join (path_join (path_join config ''User'') ''globalStorage'')
                            ''storage.json''
            in if path_exists w installed \<and> path_exists w config \<and> path_exists w storage
               then Some \<lparr>installed_path = Some installed, config_path = Some config,
                          global_state_db =
                            Some (path_join (path_join (path_join config ''User'')
                                    ''globalStorage'') ''state.vscdb''),
                          storage_json = Some storage, include_types = None\<rparr>
               else init_variants w home path rest))"

fun init_dirs :: "world \<Rightarrow> string \<Rightarrow> string list \<Rightarrow> code option" where
  "init_dirs w home [] = None"
| "init_dirs w home (path # rest) =
     (case init_variants w home path variants of
        Some self \<Rightarrow> Some self
      | None \<Rightarrow> init_dirs w home rest)"

definition Code_init :: "world \<Rightarrow> string \<Rightarrow> code" where
  "Code_init w home =
     (case init_dirs w home path_dirs of Some self \<Rightarrow> self | None \<Rightarrow> unresolved)"

definition is_installed :: "code \<Rightarrow> bool" where
  "is_installed self \<longleftrightarrow> installed_path self \<noteq> None"

text \<open>
  The resolution in the words of the specification, with the file the code tests: the
  first combination of a directory and a variant, directories first, whose executable,
  configuration directory and \<open>storage.json\<close> exist.
\<close>

definition candidates :: "(string \<times> string) list" where
  "candidates = List.product path_dirs variants"

definition config_dir :: "string \<Rightarrow> string \<Rightarrow> string" where
  "config_dir home variant =
     path_join (path_join home ''.config'') (if variant = ''Codium'' then ''VSCodium'' else variant)"

definition global_storage :: "string \<Rightarrow> string \<Rightarrow> string \<Rightarrow> string" where
  "global_storage home variant name =
     path_join (path_join (path_join (config_dir home variant) ''User'') ''globalStorage'') name"

definition candidate_ok :: "world \<Rightarrow> string \<Rightarrow> string \<times> string \<Rightarrow> bool" where
  "candidate_ok w home c \<longleftrightarrow>
     path_exists w (path_join (fst c) (py_lower (snd c))) \<and>
     path_exists w (config_dir home (snd c)) \<and>
     path_exists w (global_storage home (snd c) ''storage.json'')"

definition descriptor :: "string \<Rightarrow> string \<times> string \<Rightarrow> code" where
  "descriptor home c =
     \<lparr>installed_path = Some (path_join (fst c) (py_lower (snd c))),
      config_path = Some (config_dir home (snd c)),
      global_state_db = Some (global_storage home (snd c) ''state.vscdb''),
      storage_json = Some (global_storage home (snd c) ''storage.json''),
      include_types = None\<rparr>"

definition first_valid_combination :: "world \<Rightarrow> string \<Rightarrow> code" where
  "first_valid_combination w home =
     (case find (candidate_ok w home) candidates of
        None \<Rightarrow> unresolved
      | Some c \<Rightarrow> descriptor home c)"

section \<open>The recents cache: \<open>get_recents\<close>\<close>

text \<open>
  The class attributes \<open>_cached_recents\<close> and \<open>_cache_timestamp\<close>, and the constant
  \<open>_cache_duration\<close>. Time is a real number of seconds.
\<close>

record cache =
  cached_recents :: "entry list option"
  cache_timestamp :: real

definition initial_cache :: cache where
  "initial_cache = \<lparr>cached_recents = None, cache_timestamp = 0\<rparr>"

definition cache_duration :: real where
  "cache_duration = 60"

text \<open>
  The file system operations of a call, in the order they happen: the trace by which a
  source read is seen.
\<close>

datatype io_event = Exists string | ReadGlobalState string | ReadLegacy string

text \<open>\<open>p.exists()\<close> on an attribute that may still be \<open>None\<close>.\<close>

definition attr_exists ::
    "world \<Rightarrow> string option \<Rightarrow> io_event list \<Rightarrow> (py_error + bool) \<times> io_event list" where
  "attr_exists w attr tr =
     (case attr of
        None \<Rightarrow> (Inl AttributeError, tr)
      | Some p \<Rightarrow> (Inr (path_exists w p), tr @ [Exists p]))"

text \<open>\<open>get_recents_global_state\<close>, lines 212-224, and \<open>get_recents_legacy\<close>, 226-236.\<close>

definition get_recents_global_state ::
    "world \<Rightarrow> code \<Rightarrow> io_event list \<Rightarrow> (py_error + entry list) \<times> io_event list" where
  "get_recents_global_state w self tr =
     (case global_state_db self of
        None \<Rightarrow> (Inl TypeError, tr)
      | Some db \<Rightarrow>
          (case read_global_state w db of
             Inl e \<Rightarrow> (Inl e, tr @ [ReadGlobalState db])
           | Inr entries \<Rightarrow>
               (parse_entry_paths entries (include_types self), tr @ [ReadGlobalState db])))"

definition get_recents_legacy ::
    "world \<Rightarrow> code \<Rightarrow> io_event list \<Rightarrow> (py_error + entry list) \<times> io_event list" where
  "get_recents_legacy w self tr =
     (case storage_json self of
        None \<Rightarrow> (Inl AttributeError, tr)
      | Some p \<Rightarrow>
          (case read_legacy w p of
             Inl e \<Rightarrow> (Inl e, tr @ [ReadLegacy p])
           | Inr entries \<Rightarrow>
               (parse_entry_paths entries (include_types self), tr @ [ReadLegacy p])))"

text \<open>
  Lines 193-200: the primary store, with the \<open>try/except\<close>. The handler swallows the
  exception when \<open>storage.json\<close> exists and raises it again otherwise.
\<close>

definition read_primary ::
    "world \<Rightarrow> code \<Rightarrow> io_event list \<Rightarrow> (py_error + entry list) \<times> io_event list" where
  "read_primary w self tr =
     (case attr_exists w (global_state_db self) tr of
        (Inl e, tr1) \<Rightarrow> (Inl e, tr1)
      | (Inr False, tr1) \<Rightarrow> (Inr [], tr1)
      | (Inr True, tr1) \<Rightarrow>
          (case get_recents_global_state w self tr1 of
             (Inr recents, tr2) \<Rightarrow> (Inr recents, tr2)
           | (Inl e, tr2) \<Rightarrow>
               (case attr_exists w (storage_json self) tr2 of
                  (Inl e', tr3) \<Rightarrow> (Inl e', tr3)
                | (Inr False, tr3) \<Rightarrow> (Inl e, tr3)
                | (Inr True, tr3) \<Rightarrow> (Inr [], tr3))))"

text \<open>Lines 188-204: the loader, the primary store and then the legacy one.\<close>

definition load_recents ::
    "world \<Rightarrow> code \<Rightarrow> io_event list \<Rightarrow> (py_error + entry list) \<times> io_event list" where
  "load_recents w self tr =
     (case read_primary w self tr of
        (Inl e, tr1) \<Rightarrow> (Inl e, tr1)
      | (Inr recents, tr1) \<Rightarrow>
          if recents = [] then
            (case attr_exists w (storage_json self) tr1 of
               (Inl e, tr2) \<Rightarrow> (Inl e, tr2)
             | (Inr False, tr2) \<Rightarrow> (Inr recents, tr2)
             | (Inr True, tr2) \<Rightarrow> get_recents_legacy w self tr2)
          else (Inr recents, tr1))"

text \<open>
  \<open>get_recents\<close>, lines 177-210. \<open>current_time\<close> is the clock at line 179 and
  \<open>stored_time\<close> the clock at line 208. The result is what the call returns or raises,
  the cache after it, and its trace. \<open>Code._cached_recents\<close> is tested for truth:
  \<open>None\<close> and the empty list both fail the test.
\<close>

definition refresh_recents ::
    "world \<Rightarrow> real \<Rightarrow> code \<Rightarrow> cache \<Rightarrow> (py_error + entry list) \<times> cache \<times> io_event list" where
  "refresh_recents w stored_time self c =
     (case load_recents w self [] of
        (Inl e, tr) \<Rightarrow> (Inl e, c, tr)
      | (Inr recents, tr) \<Rightarrow>
          (Inr recents,
           \<lparr>cached_recents = Some recents, cache_timestamp = stored_time\<rparr>,
           tr))"

definition get_recents ::
    "world \<Rightarrow> real \<Rightarrow> real \<Rightarrow> code \<Rightarrow> cache
       \<Rightarrow> (py_error + entry list) \<times> cache \<times> io_event list" where
  "get_recents w current_time stored_time self c =
     (case cached_recents c of
        None \<Rightarrow> refresh_recents w stored_time self c
      | Some recents \<Rightarrow>
          if recents \<noteq> [] \<and> current_time - cache_timestamp c < cache_duration
          then (Inr recents, c, [])
          else refresh_recents w stored_time self c)"

section \<open>The ranker: \<open>get_ext_result_items\<close>\<close>

text \<open>
  The attributes of \<open>CodeExtension\<close> that the listeners set. Its class attribute
  \<open>include_types\<close> is never read and is left out.
\<close>

record code_extension =
  keyword :: "string option"
  excluded_env_vars :: "string option"
  code :: code
  prefer_type :: "string option"

text \<open>One element of \<open>data\<close> (line 344): the keys \<open>recent\<close> and \<open>score\<close>.\<close>

record scored =
  recent :: entry
  score_value :: real

text \<open>
  The loop of lines 332-344. \<open>prefer_type and ...\<close> tests the preference for truth:
  \<open>None\<close> and the empty string give no boost.
\<close>

fun rank_loop :: "string option \<Rightarrow> string \<Rightarrow> entry list \<Rightarrow> scored list \<Rightarrow> py_error + scored list"
where
  "rank_loop preferred query [] data = Inr data"
| "rank_loop preferred query (r # recents) data =
     (case command_score (label r) query [] of
        Inl e \<Rightarrow> Inl e
      | Inr label_score \<Rightarrow>
          (case command_score (uri r) query [] of
             Inl e \<Rightarrow> Inl e
           | Inr uri_score \<Rightarrow>
               (let boosted =
                      (if preferred \<noteq> None \<and> preferred \<noteq> Some [] \<and> Some (type r) = preferred
                       then label_score * 1.02 else label_score)
                in if boosted > 0.1 \<or> uri_score > 0.1
                   then rank_loop preferred query recents
                          (data @ [\<lparr>recent = r, score_value = max boosted uri_score\<rparr>])
                   else rank_loop preferred query recents data)))"

text \<open>
  \<open>sorted(data, key=..., reverse=True)\<close>: Python reverses the list, sorts it stably
  in ascending order and reverses it again, which keeps elements with equal keys in their
  order.
\<close>

definition py_sorted_reverse :: "('a \<Rightarrow> real) \<Rightarrow> 'a list \<Rightarrow> 'a list" where
  "py_sorted_reverse key xs = rev (sort_key key (rev xs))"

text \<open>Lines 346-349 on a given \<open>data\<close>: the elements the result items are built from.\<close>

definition ranked :: "scored list \<Rightarrow> scored list" where
  "ranked data = take 15 (py_sorted_reverse score_value data)"

text \<open>
  \<open>get_ext_result_items\<close>, lines 321-363. The result items are built one for each
  element of \<open>data[:15]\<close>, in its order, so the model returns these elements.
\<close>

definition get_ext_result_items ::
    "world \<Rightarrow> real \<Rightarrow> real \<Rightarrow> code_extension \<Rightarrow> cache \<Rightarrow> string
       \<Rightarrow> (py_error + scored list) \<times> cache \<times> io_event list" where
  "get_ext_result_items w current_time stored_time ext c query =
     (let q = (if query \<noteq> [] then py_lower query else [])
      in case get_recents w current_time stored_time (code ext) c of
           (Inl e, c', tr) \<Rightarrow> (Inl e, c', tr)
         | (Inr recents, c', tr) \<Rightarrow>
             (case rank_loop (prefer_type ext) q recents [] of
                Inl e \<Rightarrow> (Inl e, c', tr)
              | Inr data \<Rightarrow> (Inr (ranked data), c', tr)))"

text \<open>
  \<open>PreferencesUpdateEventListener.on_event\<close>, lines 401-410, for an event with the
  given \<open>id\<close> and \<open>new_value\<close>.
\<close>

definition preferences_update :: "string \<Rightarrow> string \<Rightarrow> code_extension \<Rightarrow> code_extension" where
  "preferences_update event_id new_value ext =
     (let ext1 = (if event_id = ''code_kw'' then ext\<lparr>keyword := Some new_value\<rparr> else ext);
          ext2 = (if event_id = ''excluded_env_vars''
                  then ext1\<lparr>excluded_env_vars := Some new_value\<rparr> else ext1);
          ext3 = (if event_id = ''include_types''
                  then ext2\<lparr>code := (code ext2)\<lparr>include_types :=
                                      Some (py_split CHR '','' new_value)\<rparr>\<rparr>
                  else ext2)
      in if event_id = ''prefer_type'' then ext3\<lparr>prefer_type := Some new_value\<rparr> else ext3)"

section \<open>Example inputs\<close>

text \<open>Records, entries and worlds at which the theorems below are evaluated.\<close>

definition root_folder_record :: raw_entry where
  "root_folder_record =
     \<lparr>folderUri = Some ''file:///'', fileUri = None, workspace = None,
      raw_label = None\<rparr>"

definition notes_record :: raw_entry where
  "notes_record =
     \<lparr>folderUri = None, fileUri = Some ''file:///home/u/notes.txt'', workspace = None,
      raw_label = None\<rparr>"

definition notes_entry :: entry where
  "notes_entry =
     \<lparr>uri = ''file:///home/u/notes.txt'', label = ''notes.txt'', icon = ''file'',
      option = ''--file-uri'', type = ''file''\<rparr>"

definition example_a :: entry where
  "example_a =
     \<lparr>uri = ''b'', label = ''ab'', icon = ''file'', option = ''--file-uri'', type = ''file''\<rparr>"

definition example_b :: entry where
  "example_b =
     \<lparr>uri = ''a'', label = ''z'', icon = ''icon'', option = ''--folder-uri'',
      type = ''folder''\<rparr>"

definition primary_only_world :: world where
  "primary_only_world =
     \<lparr>path_exists = (\<lambda>p. p \<in> set [''/usr/bin/code'', ''/home/u/.config/Code'',
                          ''/home/u/.config/Code/User/globalStorage/state.vscdb'']),
      read_global_state = (\<lambda>p. Inr []),
      read_legacy = (\<lambda>p. Inl ReadError)\<rparr>"

definition legacy_only_world :: world where
  "legacy_only_world =
     \<lparr>path_exists = (\<lambda>p. p \<in> set [''/usr/bin/code'', ''/home/u/.config/Code'',
                          ''/home/u/.config/Code/User/globalStorage/storage.json'']),
      read_global_state = (\<lambda>p. Inl ReadError),
      read_legacy = (\<lambda>p. Inr [])\<rparr>"

definition example_db :: string where
  "example_db = ''/home/u/.config/Code/User/globalStorage/state.vscdb''"

definition example_json :: string where
  "example_json = ''/home/u/.config/Code/User/globalStorage/storage.json''"

definition resolved_code :: code where
  "resolved_code =
     \<lparr>installed_path = Some ''/usr/bin/code'', config_path = Some ''/home/u/.config/Code'',
      global_state_db = Some example_db, storage_json = Some example_json,
      include_types = Some [''folder'']\<rparr>"

definition empty_history_world :: world where
  "empty_history_world =
     \<lparr>path_exists = (\<lambda>p. True), read_global_state = (\<lambda>p. Inr []),
      read_legacy = (\<lambda>p. Inr [])\<rparr>"

definition broken_db_world :: world where
  "broken_db_world =
     \<lparr>path_exists = (\<lambda>p. p = example_db), read_global_state = (\<lambda>p. Inl ReadError),
      read_legacy = (\<lambda>p. Inl ReadError)\<rparr>"

definition proj_record :: raw_entry where
  "proj_record =
     \<lparr>folderUri = Some ''file:///home/u/proj'', fileUri = None, workspace = None,
      raw_label = Some ''proj''\<rparr>"

definition proj_entry :: entry where
  "proj_entry =
     \<lparr>uri = ''file:///home/u/proj'', label = ''proj'', icon = ''icon'',
      option = ''--folder-uri'', type = ''folder''\<rparr>"

definition folder_history_world :: world where
  "folder_history_world =
     \<lparr>path_exists = (\<lambda>p. True), read_global_state = (\<lambda>p. Inr [proj_record]),
      read_legacy = (\<lambda>p. Inr [])\<rparr>"

definition folder_extension :: code_extension where
  "folder_extension =
     \<lparr>keyword = Some ''code'', excluded_env_vars = Some [], code = resolved_code,
      prefer_type = Some []\<rparr>"


definition legacy_fallback_world :: world where
  "legacy_fallback_world =
     \<lparr>path_exists = (\<lambda>p. True), read_global_state = (\<lambda>p. Inl ReadError),
      read_legacy = (\<lambda>p. Inr [proj_record])\<rparr>"


definition mixed_history_world :: world where
  "mixed_history_world =
     \<lparr>path_exists = (\<lambda>p. True), read_global_state = (\<lambda>p. Inr [proj_record, notes_record]),
      read_legacy = (\<lambda>p. Inr [])\<rparr>"

section \<open>Properties of the scorer\<close>

lemmas score_consts =
  SCORE_CONTINUE_MATCH_def SCORE_SPACE_WORD_JUMP_def SCORE_NON_SPACE_WORD_JUMP_def
  SCORE_CHARACTER_JUMP_def PENALTY_SKIPPED_def PENALTY_CASE_MISMATCH_def

lemma index_of_Some: "index_of c xs = Some i \<Longrightarrow> i < length xs \<and> xs ! i = c"
  by (induction xs arbitrary: i) (auto split: if_splits)

lemma py_find_Some:
  "py_find s c start = Some i \<Longrightarrow> start \<le> i \<and> i < length s \<and> s ! i = c"
  by (auto simp: py_find_def dest!: index_of_Some)

lemma py_lower_space: "py_lower_char CHR '' '' = CHR '' ''"
  by (simp add: py_lower_char_def)

lemma index_of_None: "index_of c xs = None \<longleftrightarrow> c \<notin> set xs"
  by (induction xs) auto

declare score.simps [simp del] score_loop.simps [simp del]

lemma index_of_least: "index_of c xs = Some i \<Longrightarrow> j < i \<Longrightarrow> xs ! j \<noteq> c"
proof (induction xs arbitrary: i j)
  case Nil
  then show ?case by simp
next
  case (Cons x xs)
  show ?case
  proof (cases "x = c")
    case True
    with Cons.prems show ?thesis by simp
  next
    case False
    with Cons.prems obtain i' where i': "index_of c xs = Some i'" "i = Suc i'"
      by auto
    show ?thesis
    proof (cases j)
      case 0
      with False show ?thesis by simp
    next
      case (Suc j')
      with Cons.IH[OF i'(1), of j'] Cons.prems(2) i'(2) show ?thesis by simp
    qed
  qed
qed

lemma py_find_hit:
  assumes "start \<le> k" "k < length s" "s ! k = c"
  shows "\<exists>i. py_find s c start = Some i \<and> start \<le> i \<and> i \<le> k"
proof -
  have "drop start s ! (k - start) = c" "k - start < length (drop start s)"
    using assms by simp_all
  then have "c \<in> set (drop start s)"
    using nth_mem by blast
  then obtain j where j: "index_of c (drop start s) = Some j"
    using index_of_None[of c "drop start s"] by (cases "index_of c (drop start s)") auto
  have "\<not> k - start < j"
  proof
    assume "k - start < j"
    from index_of_least[OF j this] assms show False by simp
  qed
  with j assms(1) show ?thesis by (simp add: py_find_def)
qed

lemma score_base:
  "score s a ls la i (length a) Map.empty =
     Inr (if i = length s then SCORE_CONTINUE_MATCH else 0.99, Map.empty)"
  by (subst score.simps) simp

lemma jump_score_ok:
  "0 < i \<or> i = si \<Longrightarrow> i \<le> length ls \<Longrightarrow> \<exists>v. jump_score ls si i t = Inr v"
  by (auto simp: jump_score_def py_index_def Let_def)

lemma loop_space:
  "start \<le> length s \<Longrightarrow>
   score_loop s '' '' (py_lower (s @ '' '' @ rest)) la 0 0 CHR '' '' start h Map.empty
     = Inl IndexError"
proof (induction "length s - start" arbitrary: start h rule: less_induct)
  case less
  define ls where "ls = py_lower (s @ '' '' @ rest)"
  have len: "length s < length ls"
    by (simp add: ls_def py_lower_def)
  have "ls ! length s = CHR '' ''"
    by (simp add: ls_def py_lower_def nth_append py_lower_space)
  with less.prems len obtain i where i: "py_find ls CHR '' '' start = Some i" "start \<le> i" "i \<le> length s"
    using py_find_hit[of start "length s" ls "CHR '' ''"] by blast
  define t where "t = (if i + 1 = length s then SCORE_CONTINUE_MATCH else 0.99)"
  have sc: "score s '' '' ls la (i + 1) (0 + 1) Map.empty = Inr (t, Map.empty)"
    using score_base[of s "'' ''" ls la "i + 1"] by (simp add: t_def)
  obtain v where v: "jump_score ls 0 i t = Inr v"
    using jump_score_ok[of i 0 ls t] i len by auto
  have step: "score_loop s '' '' ls la 0 0 CHR '' '' start h Map.empty =
    (case case_penalty s '' '' i 0 v of
       Inl e \<Rightarrow> Inl e
     | Inr penalised \<Rightarrow>
         score_loop s '' '' ls la 0 0 CHR '' '' (i + 1)
           (if penalised > h then penalised else h) Map.empty)"
    by (subst score_loop.simps) (simp only: i sc v option.case sum.case prod.case)
  show ?case
  proof (cases "i = length s")
    case True
    then have "case_penalty s '' '' i 0 v = Inl IndexError"
      by (simp add: case_penalty_def py_index_def)
    then show ?thesis
      unfolding ls_def[symmetric] step by simp
  next
    case False
    with i have lt: "i < length s" by simp
    then obtain p where p: "case_penalty s '' '' i 0 v = Inr p"
      by (auto simp: case_penalty_def py_index_def)
    have "length s - (i + 1) < length s - start" "i + 1 \<le> length s"
      using lt i by simp_all
    then have "score_loop s '' '' ls la 0 0 CHR '' '' (i + 1) (if p > h then p else h) Map.empty
        = Inl IndexError"
      unfolding ls_def by (rule less.hyps)
    then show ?thesis
      unfolding ls_def[symmetric] step p by simp
  qed
qed

text \<open>
  Claim C10. For every candidate \<open>s\<close> (and any aliases), \<open>command_score\<close> with the
  query of one space raises \<open>IndexError\<close>: the search runs over the lowered candidate
  with a space appended, so the space of the query is found at index \<open>len(s)\<close>, where
  \<open>string[index]\<close> is out of range.
\<close>

theorem single_space_query_raises:
  "command_score s '' '' aliases = Inl IndexError"
proof -
  have la: "py_index (py_lower '' '') (int 0) = Inr CHR '' ''"
    by (simp add: py_index_def py_lower_def py_lower_space)
  have "score s '' '' (py_lower (s @ '' '' @ py_join '' '' aliases)) (py_lower '' '') 0 0 Map.empty
          = Inl IndexError"
    using la loop_space[of 0 s "py_join '' '' aliases" "py_lower '' ''" 0]
    by (subst score.simps) simp
  then show ?thesis
    by (simp add: command_score_def)
qed

lemmas score_eval =
  command_score_def score.simps score_loop.simps py_lower_def py_lower_char_def py_find_def
  py_index_def jump_score_def case_penalty_def score_consts IS_SPACE_REGEXP_def
  IS_GAP_REGEXP_def char_of_def bit_0

lemma jump_score_factor:
  assumes "si < i" "py_index (ls :: string) (int i - 1) = Inr p"
  shows "jump_score ls si i t =
     Inr (t * (if IS_SPACE_REGEXP p then 0.9
               else if IS_GAP_REGEXP p then 0.8
               else if si > 0 then 0.17 * 0.999 ^ (i - si) else 0.17))"
proof -
  have "int i - int si = int (i - si)"
    using assms(1) by simp
  then have "(0.999 :: real) powi (int i - int si) = 0.999 ^ (i - si)"
    by (simp only: power_int_of_nat)
  with assms show ?thesis
    by (simp add: jump_score_def score_consts Let_def)
qed

text \<open>
  Claim C6. A jump to a word boundary outscores a jump inside a token:
  \<open>command_score("foo-bar", "fb")\<close> is \<open>0.99 * 0.9\<close> and
  \<open>command_score("fobar", "fb")\<close> is \<open>0.99 * 0.17 * 0.999\<close>. In general a match
  beyond the position the search began gets the factor 0.9 after white space or a
  hyphen, 0.8 after a gap character, and otherwise 0.17, times 0.999 for each skipped
  character unless the search began at the very start of the candidate.
\<close>

theorem boundary_jump_outscores_character_jump:
  "command_score ''foo-bar'' ''fb'' [] = Inr (0.99 * 0.9) \<and>
   command_score ''fobar'' ''fb'' [] = Inr (0.99 * (0.17 * 0.999 ^ 1)) \<and>
   (0.99 * 0.9 :: real) > 0.99 * (0.17 * 0.999 ^ 1) \<and>
   (\<forall>(ls :: string) si i t p. si < i \<and> py_index ls (int i - 1) = Inr p \<longrightarrow>
      jump_score ls si i t =
        Inr (t * (if IS_SPACE_REGEXP p then 0.9
                  else if IS_GAP_REGEXP p then 0.8
                  else if si > 0 then 0.17 * 0.999 ^ (i - si) else 0.17)))"
proof (intro conjI allI impI)
  show "command_score ''foo-bar'' ''fb'' [] = Inr (0.99 * 0.9)"
    by (simp add: score_eval)
  show "command_score ''fobar'' ''fb'' [] = Inr (0.99 * (0.17 * 0.999 ^ 1))"
    by (simp add: score_eval)
  show "(0.99 * 0.9 :: real) > 0.99 * (0.17 * 0.999 ^ 1)"
    by simp
next
  fix ls :: string and si i :: nat and t :: real and p :: char
  assume "si < i \<and> py_index ls (int i - 1) = Inr p"
  then show "jump_score ls si i t =
        Inr (t * (if IS_SPACE_REGEXP p then 0.9
                  else if IS_GAP_REGEXP p then 0.8
                  else if si > 0 then 0.17 * 0.999 ^ (i - si) else 0.17))"
    using jump_score_factor by blast
qed

theorem boundary_jump_witness:
  "(1::nat) < 4 \<and> py_index ''foo-bar '' (int 4 - 1) = Inr CHR ''-'' \<and>
   jump_score ''foo-bar '' 1 4 0.99 = Inr (0.99 * 0.9) \<and>
   jump_score ''fobar '' 1 2 0.99 = Inr (0.99 * (0.17 * 0.999 ^ 1))"
proof -
  have a: "(1::nat) < 4 \<and> py_index ''foo-bar '' (int 4 - 1) = Inr CHR ''-''"
    by (simp add: py_index_def)
  have b: "(1::nat) < 2 \<and> py_index ''fobar '' (int 2 - 1) = Inr CHR ''o''"
    by (simp add: py_index_def)
  from boundary_jump_outscores_character_jump
  have g: "\<And>(ls :: string) si i t p. si < i \<and> py_index ls (int i - 1) = Inr p \<Longrightarrow>
      jump_score ls si i t =
        Inr (t * (if IS_SPACE_REGEXP p then 0.9
                  else if IS_GAP_REGEXP p then 0.8
                  else if si > 0 then 0.17 * 0.999 ^ (i - si) else 0.17))"
    by blast
  show ?thesis
    using a g[OF a, of "0.99"] g[OF b, of "0.99"]
    by (simp add: IS_SPACE_REGEXP_def IS_GAP_REGEXP_def)
qed

lemma py_lower_char_space_iff: "py_lower_char c = CHR '' '' \<longleftrightarrow> c = CHR '' ''"
proof
  assume l: "py_lower_char c = CHR '' ''"
  show "c = CHR '' ''"
  proof (rule ccontr)
    assume n: "c \<noteq> CHR '' ''"
    define k where "k = (of_char c :: nat)"
    have "char_of (k + 32) = CHR '' ''" and r: "(65 \<le> k \<and> k \<le> 90) \<or> (192 \<le> k \<and> k \<le> 222 \<and> k \<noteq> 215)"
      using l n by (auto simp: py_lower_char_def Let_def k_def split: if_splits)
    then have "(of_char (char_of (k + 32)) :: nat) = of_char CHR '' ''"
      by simp
    then have "(k + 32) mod 256 = 32"
      by (simp add: of_char_of)
    with r show False
      by (auto simp: mod_if split: if_splits)
  qed
next
  assume "c = CHR '' ''"
  then show "py_lower_char c = CHR '' ''"
    by (simp add: py_lower_char_def)
qed

lemma jump_score_bounds:
  assumes "i < length ls" "0 \<le> t" "t \<le> 1" "si \<le> i"
  shows "\<exists>j. jump_score ls si i t = Inr j \<and> 0 \<le> j \<and> j \<le> t \<and> (i = si \<longrightarrow> j = t)"
proof -
  have "\<exists>f. jump_score ls si i t = Inr (t * f) \<and> 0 \<le> f \<and> f \<le> 1 \<and> (i = si \<longrightarrow> f = 1)"
  proof (cases "i = si")
    case True
    then show ?thesis
      by (simp add: jump_score_def score_consts)
  next
    case False
    from assms(1) obtain p where p: "py_index ls (int i - 1) = Inr p"
      by (cases "i = 0") (auto simp: py_index_def)
    let ?f = "(if IS_SPACE_REGEXP p then 0.9
               else if IS_GAP_REGEXP p then 0.8
               else if si > 0 then 0.17 * 0.999 ^ (i - si) else 0.17) :: real"
    have pw: "(0.999 :: real) ^ n \<le> 1" for n
      by (rule power_le_one) simp_all
    have "(0.17 :: real) * 0.999 ^ n \<le> 0.17 * 1" for n
      using pw[of n] by (intro mult_left_mono) simp_all
    then have "(0.17 :: real) * 0.999 ^ n \<le> 1" for n
      using order_trans[of "(0.17 :: real) * 0.999 ^ n" "0.17 * 1" 1] by simp
    then have "0 \<le> ?f \<and> ?f \<le> 1"
      by simp
    from False assms(4) have "si < i" by simp
    from jump_score_factor[OF this p, of t] False \<open>0 \<le> ?f \<and> ?f \<le> 1\<close> show ?thesis
      by blast
  qed
  then obtain f where f: "jump_score ls si i t = Inr (t * f)" "0 \<le> f" "f \<le> 1" "i = si \<longrightarrow> f = 1"
    by blast
  have "t * f \<le> t * 1"
    using assms(2) f(3) by (intro mult_left_mono) simp_all
  with f assms(2) show ?thesis
    by auto
qed

lemma case_penalty_bounds:
  assumes "i < length s" "ai < length a" "0 \<le> t"
  shows "\<exists>p. case_penalty s a i ai t = Inr p \<and> 0 \<le> p \<and> p \<le> t \<and> (s ! i = a ! ai \<longrightarrow> p = t)"
  using assms by (simp add: case_penalty_def py_index_def score_consts)

lemma score_total_aux:
  "ls = py_lower s @ '' '' \<Longrightarrow> la = py_lower a \<Longrightarrow> CHR '' '' \<notin> set a \<Longrightarrow>
     ai \<le> length a \<Longrightarrow> memo_ok s a memo \<Longrightarrow>
     \<exists>v m. score s a ls la si ai memo = Inr (v, m) \<and> 0 \<le> v \<and> v \<le> 1 \<and> memo_ok s a m \<and>
           (a = s \<and> si = ai \<longrightarrow> v = 1)"
  "ls = py_lower s @ '' '' \<Longrightarrow> la = py_lower a \<Longrightarrow> CHR '' '' \<notin> set a \<Longrightarrow>
     ai < length a \<Longrightarrow> c = la ! ai \<Longrightarrow> 0 \<le> h \<Longrightarrow> h \<le> 1 \<Longrightarrow> memo_ok s a memo \<Longrightarrow>
     si \<le> start \<Longrightarrow>
     \<exists>v m. score_loop s a ls la si ai c start h memo = Inr (v, m) \<and> h \<le> v \<and> v \<le> 1 \<and>
           memo_ok s a m \<and> (a = s \<and> si = ai \<and> (start \<le> si \<or> h = 1) \<longrightarrow> v = 1)"
proof (induction s a ls la si ai memo and s a ls la si ai c start h memo
       rule: score_score_loop.induct)
  case (1 s a ls la si ai memo)
  show ?case
  proof (cases "memo (si, ai)")
    case (Some v)
    with "1.prems"(5) show ?thesis
      by (subst score.simps) (auto simp: memo_ok_def)
  next
    case None
    show ?thesis
    proof (cases "ai = length a")
      case True
      with None "1.prems" show ?thesis
        by (subst score.simps) (auto simp: score_consts)
    next
      case False
      with "1.prems"(4) have lt: "ai < length a" by simp
      then have idx: "py_index la (int ai) = Inr (la ! ai)"
        using "1.prems"(2) by (simp add: py_index_def py_lower_def)
      from "1.IH"[OF None False idx "1.prems"(1-3) lt refl _ _ "1.prems"(5) order_refl]
      obtain v m where l: "score_loop s a ls la si ai (la ! ai) si 0 memo = Inr (v, m)"
          "0 \<le> v" "v \<le> 1" "memo_ok s a m" "a = s \<and> si = ai \<longrightarrow> v = 1"
        by auto
      have "memo_ok s a (m((si, ai) \<mapsto> v))"
        using l(2-5) unfolding memo_ok_def by auto
      with None False idx l show ?thesis
        by (subst score.simps) simp
    qed
  qed
next
  case (2 s a ls la si ai c start h memo)
  note prems = "2.prems"
  have len: "length ls = length s + 1"
    using prems(1) by (simp add: py_lower_def)
  show ?case
  proof (cases "py_find ls c start")
    case None
    have "\<not> (a = s \<and> si = ai \<and> start \<le> si)"
    proof
      assume d: "a = s \<and> si = ai \<and> start \<le> si"
      with prems have "ls ! si = c" "si < length ls"
        by (simp_all add: py_lower_def nth_append)
      with d py_find_hit[of start si ls c] None show False by auto
    qed
    with None prems show ?thesis
      by (subst score_loop.simps) auto
  next
    case (Some i)
    from py_find_Some[OF Some] have i: "start \<le> i" "i < length ls" "ls ! i = c"
      by simp_all
    have "c \<in> set la"
      using prems(2,4,5) by (simp add: py_lower_def)
    then have "c \<noteq> CHR '' ''"
      using prems(2,3) by (auto simp: py_lower_def py_lower_char_space_iff)
    with i prems(1) have "i \<noteq> length s"
      by (auto simp: py_lower_def nth_append)
    with i(2) len have ilt: "i < length s" by simp
    from "2.IH"(1)[OF Some prems(1-3) _ prems(8)] prems(4)
    obtain t m1 where sc: "score s a ls la (i + 1) (ai + 1) memo = Inr (t, m1)"
        "0 \<le> t" "t \<le> 1" "memo_ok s a m1" "a = s \<and> i + 1 = ai + 1 \<longrightarrow> t = 1"
      by auto
    from prems(9) i(1) have sii: "si \<le> i" by simp
    from jump_score_bounds[OF i(2) sc(2,3) sii]
    obtain j where j: "jump_score ls si i t = Inr j" "0 \<le> j" "j \<le> t" "i = si \<longrightarrow> j = t"
      by auto
    from case_penalty_bounds[OF ilt prems(4) j(2)]
    obtain p where p: "case_penalty s a i ai j = Inr p" "0 \<le> p" "p \<le> j" "s ! i = a ! ai \<longrightarrow> p = j"
      by auto
    let ?h = "if h < p then p else h"
    have h': "0 \<le> ?h" "?h \<le> 1" "h \<le> ?h"
      using prems(6,7) p(2,3) j(3) sc(3) by auto
    from sii have "si \<le> i + 1" by simp
    from "2.IH"(2)[OF Some sc(1) refl j(1) p(1) prems(1-5) h'(1,2) sc(4) this]
    obtain v m where l: "score_loop s a ls la si ai c (i + 1) ?h m1 = Inr (v, m)"
        "?h \<le> v" "v \<le> 1" "memo_ok s a m"
        "a = s \<and> si = ai \<and> (i + 1 \<le> si \<or> ?h = 1) \<longrightarrow> v = 1"
      by auto
    have diag: "v = 1" if d: "a = s" "si = ai" "start \<le> si \<or> h = 1"
    proof -
      have "i + 1 \<le> si \<or> ?h = 1"
      proof (cases "h = 1")
        case True
        with p(3) j(3) sc(3) show ?thesis by auto
      next
        case False
        with d(3) have st: "start \<le> si" by simp
        have "ls ! si = c" "si < length ls"
          using d prems(1,2,4,5) len by (simp_all add: py_lower_def nth_append)
        with py_find_hit[OF st this(2,1)] Some have "i \<le> si" by auto
        show ?thesis
        proof (cases "i = si")
          case True
          with d sc(5) j(4) p(4) have "p = 1" by auto
          with prems(7) show ?thesis by auto
        next
          case False
          with \<open>i \<le> si\<close> show ?thesis by simp
        qed
      qed
      with l(5) d show ?thesis by blast
    qed
    have step: "score_loop s a ls la si ai c start h memo = Inr (v, m)"
      using Some sc(1) j(1) p(1) l(1) by (subst score_loop.simps) simp
    from step l(2-4) h'(3) diag show ?thesis
      by auto
  qed
qed

text \<open>
  Without a space in the query \<open>command_score\<close> (called without aliases, as the ranker
  calls it) raises nothing and returns a score between 0 and 1; and a string without a
  space scores 1 against itself.
\<close>

lemma command_score_total:
  assumes "CHR '' '' \<notin> set abbreviation"
  shows "\<exists>v. command_score string abbreviation [] = Inr v \<and> 0 \<le> v \<and> v \<le> 1"
proof -
  have "memo_ok string abbreviation Map.empty"
    by (simp add: memo_ok_def)
  from score_total_aux(1)[OF refl refl assms _ this, of 0 0]
  show ?thesis
    by (auto simp: command_score_def py_lower_def py_lower_space)
qed

lemma identical_string_without_space:
  assumes "CHR '' '' \<notin> set s"
  shows "command_score s s [] = Inr 1"
proof -
  have "memo_ok s s Map.empty"
    by (simp add: memo_ok_def)
  from score_total_aux(1)[OF refl refl assms _ this, of 0 0]
  show ?thesis
    by (auto simp: command_score_def py_lower_def py_lower_space)
qed

text \<open>
  Claim C4, at a string with a space. \<open>command_score("a b", "a b")\<close> raises
  \<open>IndexError\<close> where the claim gives the score 1: the space of the query also matches
  the space appended to the lowered candidate, at index 3, and \<open>string[3]\<close> is out of
  range. This is the defect of claim C10.
\<close>

theorem identical_string_with_space_raises:
  "command_score ''a b'' ''a b'' [] = Inl IndexError"
  by (simp add: score_eval)

section \<open>Properties of the ranker\<close>

lemma command_score_empty_query:
  "command_score s [] aliases = Inr (if s = [] then 1 else 0.99)"
proof -
  have "score s [] ls la 0 0 Map.empty =
          Inr (if 0 = length s then SCORE_CONTINUE_MATCH else 0.99, Map.empty)" for ls la
    by (subst score.simps) simp
  then show ?thesis
    by (simp add: command_score_def score_consts)
qed

lemma rank_loop_empty_query:
  "\<exists>kept. rank_loop preferred [] recents data = Inr (data @ kept) \<and> map recent kept = recents
      \<and> (\<forall>d \<in> set kept. score_value d > 0.1)"
proof (induction recents arbitrary: data)
  case Nil
  then show ?case by simp
next
  case (Cons r recents)
  let ?boosted = "(if preferred \<noteq> None \<and> preferred \<noteq> Some [] \<and> Some (type r) = preferred
      then (if label r = [] then 1 else 0.99) * 1.02 else (if label r = [] then 1 else 0.99)) :: real"
  let ?item = "\<lparr>recent = r, score_value = max ?boosted (if uri r = [] then 1 else 0.99)\<rparr>"
  have b: "?boosted > 0.1" by simp
  have step: "rank_loop preferred [] (r # recents) data = rank_loop preferred [] recents (data @ [?item])"
    by (simp add: command_score_empty_query Let_def)
  from Cons.IH[of "data @ [?item]"] obtain kept where
    k: "rank_loop preferred [] recents (data @ [?item]) = Inr ((data @ [?item]) @ kept)"
       "map recent kept = recents" "\<forall>d \<in> set kept. score_value d > 0.1"
    by blast
  have "score_value ?item > 0.1" using b by simp
  show ?case
  proof (rule exI[where x = "?item # kept"], intro conjI)
    show "rank_loop preferred [] (r # recents) data = Inr (data @ ?item # kept)"
      unfolding step k(1) by simp
    show "map recent (?item # kept) = r # recents"
      using k(2) by simp
    show "\<forall>d \<in> set (?item # kept). score_value d > 0.1"
      using k(3) \<open>score_value ?item > 0.1\<close> by simp
  qed
qed

text \<open>
  Claim C5. For every non-empty candidate \<open>s\<close> the score of the empty query is 0.99,
  whatever \<open>s\<close> is; and the loop of the ranker, given the empty query, keeps every
  entry of the list, in order: none is discarded at the threshold 0.1.
\<close>

theorem empty_query_score:
  "(s \<noteq> [] \<longrightarrow> command_score s [] aliases = Inr 0.99) \<and>
   (\<exists>data. rank_loop preferred [] recents [] = Inr data \<and> map recent data = recents)"
proof -
  obtain kept where "rank_loop preferred [] recents [] = Inr ([] @ kept)" "map recent kept = recents"
    using rank_loop_empty_query[of preferred recents "[]"] by blast
  then have "\<exists>data. rank_loop preferred [] recents [] = Inr data \<and> map recent data = recents"
    by simp
  then show ?thesis
    by (simp add: command_score_empty_query)
qed

theorem empty_query_score_witness:
  "''proj'' \<noteq> [] \<and> command_score ''proj'' [] [] = Inr 0.99"
  using empty_query_score[of "''proj''" "[]" None "[]"] by simp

lemma py_sorted_reverse_stable:
  "filter (\<lambda>y. key y = k) (py_sorted_reverse key xs) = filter (\<lambda>y. key y = k) xs"
proof -
  have "filter (\<lambda>y. key y = k) (rev (sort_key key (rev xs)))
          = rev (filter (\<lambda>y. key y = k) (sort_key key (rev xs)))"
    by (simp add: rev_filter)
  also have "\<dots> = rev (filter (\<lambda>y. key y = k) (rev xs))"
    by (simp only: sort_key_stable)
  also have "\<dots> = filter (\<lambda>y. key y = k) xs"
    by (simp add: rev_filter)
  finally show ?thesis
    by (simp add: py_sorted_reverse_def)
qed

lemma py_sorted_reverse_descending:
  "sorted_wrt (\<lambda>a b. key a \<ge> key b) (py_sorted_reverse key xs)"
proof -
  have "sorted (map key (sort_key key (rev xs)))"
    by (rule sorted_sort_key)
  then have "sorted_wrt (\<lambda>a b. key a \<le> key b) (sort_key key (rev xs))"
    by (simp add: sorted_map)
  then show ?thesis
    by (simp add: py_sorted_reverse_def sorted_wrt_rev)
qed

lemma rank_loop_appends:
  "rank_loop preferred query recents data = Inr out \<Longrightarrow>
     \<exists>kept. out = data @ kept \<and> subseq (map recent kept) recents"
proof (induction recents arbitrary: data)
  case Nil
  then show ?case by simp
next
  case (Cons r recents)
  from Cons.prems obtain data' where
    d: "rank_loop preferred query recents data' = Inr out"
       "data' = data \<or> (\<exists>item. data' = data @ [item] \<and> recent item = r)"
    by (auto simp: Let_def split: sum.splits if_splits)
  from Cons.IH[OF d(1)] obtain kept where k: "out = data' @ kept" "subseq (map recent kept) recents"
    by blast
  from d(2) show ?case
  proof
    assume "data' = data"
    with k show ?thesis by auto
  next
    assume "\<exists>item. data' = data @ [item] \<and> recent item = r"
    then obtain item where "data' = data @ [item]" "recent item = r" by blast
    with k have "out = data @ (item # kept)" "subseq (map recent (item # kept)) (r # recents)"
      by simp_all
    then show ?thesis by blast
  qed
qed

lemma ranked_properties:
  "length (ranked data) \<le> 15 \<and>
   sorted_wrt (\<lambda>a b. score_value a \<ge> score_value b) (ranked data) \<and>
   (\<forall>v. prefix (filter (\<lambda>d. score_value d = v) (ranked data))
                (filter (\<lambda>d. score_value d = v) data))"
proof (intro conjI allI)
  show "length (ranked data) \<le> 15"
    by (simp add: ranked_def)
  show "sorted_wrt (\<lambda>a b. score_value a \<ge> score_value b) (ranked data)"
    unfolding ranked_def by (rule sorted_wrt_take) (rule py_sorted_reverse_descending)
  show "prefix (filter (\<lambda>d. score_value d = v) (ranked data))
               (filter (\<lambda>d. score_value d = v) data)" for v
  proof -
    have "prefix (filter (\<lambda>d. score_value d = v) (take 15 (py_sorted_reverse score_value data)))
                 (filter (\<lambda>d. score_value d = v) (py_sorted_reverse score_value data))"
      by (rule filter_mono_prefix) (rule take_is_prefix)
    then show ?thesis
      by (simp only: ranked_def py_sorted_reverse_stable)
  qed
qed

text \<open>
  Claim C7. Whatever the entry list and the query, the list a call of
  \<open>get_ext_result_items\<close> returns has at most 15 elements and is in descending order
  of score. It is \<open>ranked data\<close> for the \<open>data\<close> that the loop of the ranker builds
  from the entry list, \<open>data\<close> lists entries in the order of the entry list, and for
  every score the returned elements with that score are the first of \<open>data\<close>'s elements
  with that score, in the same order.
\<close>

theorem ranker_output:
  assumes "get_ext_result_items w current_time stored_time ext c query = (Inr out, c', tr)"
  shows "length out \<le> 15 \<and>
         sorted_wrt (\<lambda>a b. score_value a \<ge> score_value b) out \<and>
         (\<exists>recents data.
            get_recents w current_time stored_time (code ext) c = (Inr recents, c', tr) \<and>
            rank_loop (prefer_type ext) (if query \<noteq> [] then py_lower query else []) recents []
              = Inr data \<and>
            subseq (map recent data) recents \<and>
            out = ranked data \<and>
            (\<forall>v. prefix (filter (\<lambda>d. score_value d = v) out)
                         (filter (\<lambda>d. score_value d = v) data)))"
proof -
  from assms obtain recents data where
    g: "get_recents w current_time stored_time (code ext) c = (Inr recents, c', tr)" and
    r: "rank_loop (prefer_type ext) (if query \<noteq> [] then py_lower query else []) recents []
          = Inr data" and
    o: "out = ranked data"
    by (auto simp: get_ext_result_items_def Let_def split: prod.splits sum.splits)
  have s: "subseq (map recent data) recents"
    using rank_loop_appends[OF r] by simp
  from g r o s ranked_properties[of data] show ?thesis
    by blast
qed

theorem ranker_output_witness:
  "get_ext_result_items empty_history_world 110 111 folder_extension
       \<lparr>cached_recents = Some [example_a, example_b], cache_timestamp = 101\<rparr> ''A'' =
     (Inr [\<lparr>recent = example_b, score_value = 1\<rparr>, \<lparr>recent = example_a, score_value = 0.99\<rparr>],
      \<lparr>cached_recents = Some [example_a, example_b], cache_timestamp = 101\<rparr>, []) \<and>
   length [\<lparr>recent = example_b, score_value = 1\<rparr>, \<lparr>recent = example_a, score_value = 0.99\<rparr>]
     \<le> 15 \<and>
   sorted_wrt (\<lambda>a b. score_value a \<ge> score_value b)
     [\<lparr>recent = example_b, score_value = 1\<rparr>, \<lparr>recent = example_a, score_value = 0.99\<rparr>]"
proof -
  let ?c = "\<lparr>cached_recents = Some [example_a, example_b], cache_timestamp = 101\<rparr>"
  have g: "get_recents empty_history_world 110 111 (code folder_extension) ?c =
             (Inr [example_a, example_b], ?c, [])"
    by (simp add: get_recents_def cache_duration_def)
  have r: "rank_loop (Some []) ''a'' [example_a, example_b] [] =
     Inr [\<lparr>recent = example_a, score_value = 0.99\<rparr>, \<lparr>recent = example_b, score_value = 1\<rparr>]"
    by (simp add: score_eval example_a_def example_b_def)
  have q: "py_lower ''A'' = ''a''"
    by (simp add: py_lower_def py_lower_char_def char_of_def bit_0)
  have f: "prefer_type folder_extension = Some []"
    by (simp add: folder_extension_def)
  have h: "get_ext_result_items empty_history_world 110 111 folder_extension ?c ''A'' =
     (Inr [\<lparr>recent = example_b, score_value = 1\<rparr>, \<lparr>recent = example_a, score_value = 0.99\<rparr>],
      ?c, [])"
    by (simp add: get_ext_result_items_def g r q f ranked_def py_sorted_reverse_def
        del: rank_loop.simps)
  from ranker_output[OF h] h show ?thesis
    by blast
qed

section \<open>Properties of the loader\<close>

lemma py_split_not_Nil: "py_split sep s \<noteq> []"
  by (induction s) (auto split: list.splits)

lemma py_split_append_sep:
  "py_split sep (xs @ sep # ys) = py_split sep xs @ py_split sep ys"
proof (induction xs)
  case Nil
  then show ?case by simp
next
  case (Cons c xs)
  obtain w ws where w: "py_split sep xs = w # ws"
    using py_split_not_Nil[of sep xs] by (cases "py_split sep xs") auto
  with Cons show ?case by simp
qed

lemma py_split_without_sep: "sep \<notin> set s \<Longrightarrow> py_split sep s = [s]"
  by (induction s) auto

lemma last_py_split_after_sep:
  "sep \<notin> set ys \<Longrightarrow> last (py_split sep (xs @ sep # ys)) = ys"
  by (simp add: py_split_append_sep py_split_without_sep)

lemma last_py_split_empty:
  "last (py_split sep s) = [] \<longleftrightarrow> s = [] \<or> last s = sep"
proof (cases "sep \<in> set s")
  case False
  then have "last (py_split sep s) = s"
    by (simp add: py_split_without_sep)
  moreover have "s \<noteq> [] \<Longrightarrow> last s \<noteq> sep"
    using False last_in_set by metis
  ultimately show ?thesis by auto
next
  case True
  then obtain xs ys where s: "s = xs @ sep # ys" "sep \<notin> set ys"
    using split_list_last by metis
  have l: "last (py_split sep s) = ys"
    using last_py_split_after_sep[OF s(2), of xs] s(1) by simp
  have "ys \<noteq> [] \<Longrightarrow> last ys \<noteq> sep"
    using s(2) last_in_set by metis
  then have "ys = [] \<longleftrightarrow> last s = sep"
    using s(1) by auto
  with l s(1) show ?thesis by simp
qed

lemma py_join_py_split: "py_join [sep] (py_split sep s) = s"
proof (induction s)
  case Nil
  then show ?case by simp
next
  case (Cons c cs)
  obtain w ws where w: "py_split sep cs = w # ws"
    using py_split_not_Nil[of sep cs] by (cases "py_split sep cs") auto
  with Cons show ?case
    by (cases ws) auto
qed

lemma py_split_no_sep: "w \<in> set (py_split sep s) \<Longrightarrow> sep \<notin> set w"
  by (induction s arbitrary: w) (auto split: if_splits list.splits)

lemma parse_entry_label:
  assumes "parse_entry path = Inr (Some e)"
  shows "label e = (case raw_label path of Some l \<Rightarrow> l | None \<Rightarrow> last (py_split CHR ''/'' (uri e)))"
  using assms by (auto simp: parse_entry_def make_entry_def split: option.splits)

lemma parse_loop_origin:
  "parse_loop entries acc = Inr out \<Longrightarrow> e \<in> set out \<Longrightarrow>
     e \<in> set acc \<or> (\<exists>path \<in> set entries. parse_entry path = Inr (Some e))"
proof (induction entries arbitrary: acc)
  case Nil
  then show ?case by simp
next
  case (Cons path entries)
  show ?case
  proof (cases "parse_entry path")
    case (Inl err)
    with Cons.prems show ?thesis by simp
  next
    case (Inr r)
    show ?thesis
    proof (cases r)
      case None
      with Inr Cons.prems have "parse_loop entries acc = Inr out" by simp
      from Cons.IH[OF this Cons.prems(2)] show ?thesis by auto
    next
      case (Some x)
      with Inr Cons.prems have "parse_loop entries (acc @ [x]) = Inr out" by simp
      from Cons.IH[OF this Cons.prems(2)] Inr Some show ?thesis by auto
    qed
  qed
qed

lemma parse_entry_paths_origin:
  assumes "parse_entry_paths entries allowed = Inr recents" "e \<in> set recents"
  shows "\<exists>path \<in> set entries. parse_entry path = Inr (Some e)"
proof -
  from assms(1) obtain parsed where p: "parse_loop entries [] = Inr parsed"
      "filter_types parsed allowed = Inr recents"
    by (auto simp: parse_entry_paths_def split: sum.splits)
  from p(2) assms(2) have "e \<in> set parsed"
    by (auto simp: filter_types_def split: if_splits option.splits)
  with parse_loop_origin[OF p(1)] show ?thesis by auto
qed

text \<open>
  Claim C8, as the code has it. The record of the root folder, with location
  \<open>file:///\<close> and no label, is accepted and gets the empty label: the last segment
  after a trailing slash is empty.
\<close>

theorem label_of_root_folder_is_empty:
  "parse_entry_paths [root_folder_record] (Some [''folder'']) =
     Inr [\<lparr>uri = ''file:///'', label = [], icon = ''icon'',
           option = ''--folder-uri'', type = ''folder''\<rparr>]"
  by (simp add: parse_entry_paths_def parse_entry_def make_entry_def filter_types_def
      root_folder_record_def)

text \<open>
  Claim C8, amended. Every entry the normalisation returns comes from a record of one of
  the three shapes; its label is the record's label when it carries one, otherwise the
  last slash-delimited segment of the location, and that default is empty exactly when
  the location is empty or ends with a slash.
\<close>

theorem label_of_accepted_record:
  "parse_entry_paths entries allowed = Inr recents \<longrightarrow>
     (\<forall>e \<in> set recents. \<exists>path \<in> set entries.
        parse_entry path = Inr (Some e) \<and>
        label e = (case raw_label path of
                     Some l \<Rightarrow> l
                   | None \<Rightarrow> last (py_split CHR ''/'' (uri e))) \<and>
        (raw_label path = None \<longrightarrow>
           (label e = [] \<longleftrightarrow> uri e = [] \<or> last (uri e) = CHR ''/'')))"
proof (intro impI ballI)
  fix e
  assume "parse_entry_paths entries allowed = Inr recents" "e \<in> set recents"
  then obtain path where p: "path \<in> set entries" "parse_entry path = Inr (Some e)"
    using parse_entry_paths_origin by blast
  from parse_entry_label[OF p(2)] p show "\<exists>path \<in> set entries.
        parse_entry path = Inr (Some e) \<and>
        label e = (case raw_label path of
                     Some l \<Rightarrow> l
                   | None \<Rightarrow> last (py_split CHR ''/'' (uri e))) \<and>
        (raw_label path = None \<longrightarrow>
           (label e = [] \<longleftrightarrow> uri e = [] \<or> last (uri e) = CHR ''/''))"
    by (intro bexI[of _ path]) (auto simp: last_py_split_empty)
qed

theorem label_of_accepted_record_witness:
  "parse_entry_paths [notes_record] (Some [''folder'', ''file'']) = Inr [notes_entry] \<and>
   (\<exists>path \<in> set [notes_record].
        parse_entry path = Inr (Some notes_entry) \<and>
        label notes_entry = (case raw_label path of
                     Some l \<Rightarrow> l
                   | None \<Rightarrow> last (py_split CHR ''/'' (uri notes_entry)))) \<and>
   label notes_entry = ''notes.txt''"
proof -
  have h: "parse_entry_paths [notes_record] (Some [''folder'', ''file'']) = Inr [notes_entry]"
    by (simp add: parse_entry_paths_def parse_entry_def make_entry_def filter_types_def
        notes_record_def notes_entry_def)
  have l: "label notes_entry = ''notes.txt''"
    by (simp add: notes_entry_def)
  from label_of_accepted_record[of "[notes_record]" "Some [''folder'', ''file'']" "[notes_entry]",
      THEN mp, OF h]
  have "\<exists>path \<in> set [notes_record].
        parse_entry path = Inr (Some notes_entry) \<and>
        label notes_entry = (case raw_label path of
                     Some l \<Rightarrow> l
                   | None \<Rightarrow> last (py_split CHR ''/'' (uri notes_entry)))"
    by auto
  with h l show ?thesis
    by blast
qed

section \<open>Properties of the source resolution\<close>

lemma find_append_case:
  "find P (xs @ ys) = (case find P xs of None \<Rightarrow> find P ys | Some x \<Rightarrow> Some x)"
  by (induction xs) auto

lemma init_variants_find:
  "init_variants w home path vs =
     map_option (descriptor home) (find (candidate_ok w home) (map (Pair path) vs))"
  by (induction vs)
     (auto simp: Let_def candidate_ok_def descriptor_def config_dir_def global_storage_def)

lemma init_dirs_find:
  "init_dirs w home dirs =
     map_option (descriptor home) (find (candidate_ok w home) (List.product dirs variants))"
  by (induction dirs) (auto simp: init_variants_find find_append_case split: option.splits)

text \<open>
  Claim C3, as the code has it. With the executable, the configuration directory and the
  primary store \<open>state.vscdb\<close> present but no \<open>storage.json\<close>, the resolution stays
  unresolved; with \<open>storage.json\<close> present and no \<open>state.vscdb\<close> it succeeds. The
  file tested is the legacy store, not the store the loader reads first.
\<close>

theorem primary_store_does_not_resolve:
  "path_exists primary_only_world ''/usr/bin/code'' \<and>
   path_exists primary_only_world ''/home/u/.config/Code'' \<and>
   path_exists primary_only_world ''/home/u/.config/Code/User/globalStorage/state.vscdb'' \<and>
   Code_init primary_only_world ''/home/u'' = unresolved \<and>
   \<not> path_exists legacy_only_world ''/home/u/.config/Code/User/globalStorage/state.vscdb'' \<and>
   is_installed (Code_init legacy_only_world ''/home/u'')"
  by (simp add: primary_only_world_def legacy_only_world_def Code_init_def path_dirs_def
      variants_def path_join_def py_lower_def py_lower_char_def Let_def is_installed_def
      unresolved_def char_of_def bit_0)

text \<open>
  Claim C3, amended. The resolution is the first combination, in the fixed order of
  directories and variants, whose executable exists, whose configuration directory exists
  and whose configuration directory holds \<open>User/globalStorage/storage.json\<close>; it is
  unresolved exactly when no combination is such.
\<close>

theorem resolution_first_valid_combination:
  "Code_init w home = first_valid_combination w home \<and>
   (is_installed (Code_init w home) \<longleftrightarrow> (\<exists>c \<in> set candidates. candidate_ok w home c))"
proof -
  have eq: "Code_init w home = first_valid_combination w home"
    by (simp add: Code_init_def first_valid_combination_def candidates_def init_dirs_find
        split: option.splits)
  have "is_installed (first_valid_combination w home)
          \<longleftrightarrow> (\<exists>c \<in> set candidates. candidate_ok w home c)"
    by (auto simp: first_valid_combination_def is_installed_def unresolved_def descriptor_def
        find_None_iff find_Some_iff split: option.splits)
  with eq show ?thesis by simp
qed

section \<open>Properties of the cache and the loader\<close>

lemmas loader_defs =
  get_recents_def refresh_recents_def load_recents_def read_primary_def attr_exists_def
  get_recents_global_state_def get_recents_legacy_def cache_duration_def

lemma get_recents_hit:
  assumes "cached_recents c = Some E" "E \<noteq> []" "current_time - cache_timestamp c < cache_duration"
  shows "get_recents w current_time stored_time self c = (Inr E, c, [])"
  using assms by (simp add: get_recents_def)

lemma load_recents_starts:
  assumes "global_state_db self = Some db"
  shows "\<exists>r tr. load_recents w self [] = (r, Exists db # tr)"
  using assms
  by (auto simp: load_recents_def read_primary_def attr_exists_def
      get_recents_global_state_def get_recents_legacy_def
      split: sum.splits bool.splits option.splits prod.splits)

lemma refresh_recents_starts:
  assumes "global_state_db self = Some db"
  shows "\<exists>r c' tr. refresh_recents w stored_time self c = (r, c', Exists db # tr)"
proof -
  from load_recents_starts[OF assms] obtain r tr where "load_recents w self [] = (r, Exists db # tr)"
    by blast
  then show ?thesis
    by (cases r) (simp_all add: refresh_recents_def)
qed

lemma get_recents_miss:
  assumes "cached_recents c = None \<or> cached_recents c = Some [] \<or>
           \<not> current_time - cache_timestamp c < cache_duration"
  shows "get_recents w current_time stored_time self c = refresh_recents w stored_time self c"
  using assms by (auto simp: get_recents_def split: option.splits)

lemma get_recents_caches:
  assumes "get_recents w t1 s1 self c = (Inr E, c1, tr1)"
  shows "cached_recents c1 = Some E"
  using assms
  by (auto simp: get_recents_def refresh_recents_def split: option.splits if_splits prod.splits sum.splits)

text \<open>
  Claim C1, as the code has it. After a load that found no entries the cache holds the
  empty list, and a second call ten seconds later, inside the window, reads the sources
  again: the test of line 181 fails on an empty list.
\<close>

theorem empty_cache_is_reloaded:
  "get_recents empty_history_world 100 101 resolved_code initial_cache =
     (Inr [], \<lparr>cached_recents = Some [], cache_timestamp = 101\<rparr>,
      [Exists example_db, ReadGlobalState example_db, Exists example_json,
       ReadLegacy example_json]) \<and>
   get_recents empty_history_world 110 111 resolved_code
       \<lparr>cached_recents = Some [], cache_timestamp = 101\<rparr> =
     (Inr [], \<lparr>cached_recents = Some [], cache_timestamp = 111\<rparr>,
      [Exists example_db, ReadGlobalState example_db, Exists example_json,
       ReadLegacy example_json])"
  by (simp add: loader_defs empty_history_world_def resolved_code_def initial_cache_def
      parse_entry_paths_def filter_types_def)

text \<open>
  Claim C1, amended. The window is 60 seconds. A call inside the window of a cache that
  holds a non-empty list returns that list, leaves the cache as it is and reads no
  source; so after a call that returned a non-empty list, a second call inside the
  window reads nothing, whatever the world and the preferences are by then. A call that
  finds the cache unset, empty, or at or past its expiry runs the loader, which starts
  by testing the primary store.
\<close>

theorem cache_hit_and_miss:
  "cache_duration = 60 \<and>
   (cached_recents c = Some E \<and> E \<noteq> [] \<and> current_time - cache_timestamp c < cache_duration
      \<longrightarrow> get_recents w current_time stored_time self c = (Inr E, c, [])) \<and>
   (get_recents w t1 s1 self c = (Inr E, c1, tr1) \<and> E \<noteq> [] \<and>
      t2 - cache_timestamp c1 < cache_duration
      \<longrightarrow> get_recents w' t2 s2 self' c1 = (Inr E, c1, [])) \<and>
   ((cached_recents c = None \<or> cached_recents c = Some [] \<or>
       \<not> current_time - cache_timestamp c < cache_duration) \<and> global_state_db self = Some db
      \<longrightarrow> (\<exists>r c' tr. get_recents w current_time stored_time self c = (r, c', Exists db # tr)))"
proof (intro conjI impI)
  show "cache_duration = 60" by (simp add: cache_duration_def)
next
  assume "cached_recents c = Some E \<and> E \<noteq> [] \<and> current_time - cache_timestamp c < cache_duration"
  then show "get_recents w current_time stored_time self c = (Inr E, c, [])"
    by (simp add: get_recents_hit)
next
  assume a: "get_recents w t1 s1 self c = (Inr E, c1, tr1) \<and> E \<noteq> [] \<and>
      t2 - cache_timestamp c1 < cache_duration"
  then have "cached_recents c1 = Some E"
    using get_recents_caches by blast
  with a show "get_recents w' t2 s2 self' c1 = (Inr E, c1, [])"
    by (simp add: get_recents_hit)
next
  assume a: "(cached_recents c = None \<or> cached_recents c = Some [] \<or>
       \<not> current_time - cache_timestamp c < cache_duration) \<and> global_state_db self = Some db"
  then have "get_recents w current_time stored_time self c = refresh_recents w stored_time self c"
    using get_recents_miss by blast
  with a refresh_recents_starts[of self db w stored_time c]
  show "\<exists>r c' tr. get_recents w current_time stored_time self c = (r, c', Exists db # tr)"
    by simp
qed

theorem cache_hit_and_miss_witness:
  "get_recents folder_history_world 100 101 resolved_code initial_cache =
     (Inr [proj_entry], \<lparr>cached_recents = Some [proj_entry], cache_timestamp = 101\<rparr>,
      [Exists example_db, ReadGlobalState example_db]) \<and>
   get_recents empty_history_world 110 111 (resolved_code\<lparr>include_types := Some [''file'']\<rparr>)
       \<lparr>cached_recents = Some [proj_entry], cache_timestamp = 101\<rparr> =
     (Inr [proj_entry], \<lparr>cached_recents = Some [proj_entry], cache_timestamp = 101\<rparr>, []) \<and>
   get_recents folder_history_world 110 111 resolved_code
       \<lparr>cached_recents = Some [proj_entry], cache_timestamp = 101\<rparr> =
     (Inr [proj_entry], \<lparr>cached_recents = Some [proj_entry], cache_timestamp = 101\<rparr>, []) \<and>
   (\<exists>r c' tr. get_recents folder_history_world 161 162 resolved_code
       \<lparr>cached_recents = Some [proj_entry], cache_timestamp = 101\<rparr> =
     (r, c', Exists example_db # tr))"
proof -
  let ?c1 = "\<lparr>cached_recents = Some [proj_entry], cache_timestamp = 101\<rparr>"
  have first: "get_recents folder_history_world 100 101 resolved_code initial_cache =
     (Inr [proj_entry], ?c1, [Exists example_db, ReadGlobalState example_db])"
    by (simp add: loader_defs folder_history_world_def resolved_code_def initial_cache_def
        parse_entry_paths_def parse_entry_def make_entry_def filter_types_def proj_record_def
        proj_entry_def)
  have inside: "110 - cache_timestamp ?c1 < cache_duration"
    by (simp add: cache_duration_def)
  have expired: "\<not> 161 - cache_timestamp ?c1 < cache_duration"
    by (simp add: cache_duration_def)
  have db: "global_state_db resolved_code = Some example_db"
    by (simp add: resolved_code_def)
  note t = cache_hit_and_miss[where c = initial_cache and E = "[proj_entry]" and
      w = folder_history_world and self = resolved_code and ?t1.0 = 100 and ?s1.0 = 101 and
      ?c1.0 = ?c1 and ?tr1.0 = "[Exists example_db, ReadGlobalState example_db]" and
      ?t2.0 = 110 and w' = empty_history_world and ?s2.0 = 111 and
      self' = "resolved_code\<lparr>include_types := Some [''file'']\<rparr>"]
  note u = cache_hit_and_miss[where c = ?c1 and current_time = 161 and
      w = folder_history_world and stored_time = 162 and self = resolved_code and
      db = example_db]
  note v = cache_hit_and_miss[where c = ?c1 and E = "[proj_entry]" and current_time = 110 and
      w = folder_history_world and stored_time = 111 and self = resolved_code]
  from v inside
  have direct: "get_recents folder_history_world 110 111 resolved_code ?c1 =
      (Inr [proj_entry], ?c1, [])"
    by simp
  from t first inside
  have second: "get_recents empty_history_world 110 111
        (resolved_code\<lparr>include_types := Some [''file'']\<rparr>) ?c1 = (Inr [proj_entry], ?c1, [])"
    by blast
  from u expired db
  have third: "\<exists>r c' tr. get_recents folder_history_world 161 162 resolved_code ?c1 =
     (r, c', Exists example_db # tr)"
    by blast
  from first direct second third show ?thesis
    by blast
qed

lemma global_state_trace:
  "get_recents_global_state w self tr = (r, tr') \<Longrightarrow> global_state_db self = Some db \<Longrightarrow>
     tr' = tr @ [ReadGlobalState db]"
  by (auto simp: get_recents_global_state_def split: sum.splits)

lemma global_state_any_trace:
  "fst (get_recents_global_state w self tr) = fst (get_recents_global_state w self tr0)"
  by (auto simp: get_recents_global_state_def split: sum.splits option.splits)

text \<open>
  Claim C9. Let the primary store exist, let reading it through
  \<open>get_recents_global_state\<close> raise \<open>e\<close>, and let the call reach the loader (the cache
  unset, empty or expired). Without a legacy store the call raises \<open>e\<close> and returns the
  cache as it was, list and timestamp. With a legacy store the call instead goes on to
  \<open>get_recents_legacy\<close>, and its outcome is the outcome of the call.
\<close>

theorem primary_failure:
  assumes "global_state_db self = Some db" "storage_json self = Some js" "path_exists w db"
    and "get_recents_global_state w self [Exists db] = (Inl e, tr)"
    and "cached_recents c = None \<or> cached_recents c = Some [] \<or>
           \<not> current_time - cache_timestamp c < cache_duration"
  shows "tr = [Exists db, ReadGlobalState db] \<and>
         (\<not> path_exists w js \<longrightarrow>
            get_recents w current_time stored_time self c = (Inl e, c, tr @ [Exists js])) \<and>
         (path_exists w js \<longrightarrow>
            get_recents w current_time stored_time self c =
              (case get_recents_legacy w self (tr @ [Exists js, Exists js]) of
                 (Inl e', tr') \<Rightarrow> (Inl e', c, tr')
               | (Inr recents, tr') \<Rightarrow>
                   (Inr recents,
                    \<lparr>cached_recents = Some recents, cache_timestamp = stored_time\<rparr>, tr')))"
proof -
  have m: "get_recents w current_time stored_time self c = refresh_recents w stored_time self c"
    using assms(5) by (rule get_recents_miss)
  show ?thesis
  proof (intro conjI impI)
    show "tr = [Exists db, ReadGlobalState db]"
      using global_state_trace[OF assms(4) assms(1)] by simp
  next
    assume "\<not> path_exists w js"
    then have "read_primary w self [] = (Inl e, tr @ [Exists js])"
      using assms(1-4) by (simp add: read_primary_def attr_exists_def)
    then show "get_recents w current_time stored_time self c = (Inl e, c, tr @ [Exists js])"
      unfolding m by (simp add: refresh_recents_def load_recents_def)
  next
    assume j: "path_exists w js"
    then have "read_primary w self [] = (Inr [], tr @ [Exists js])"
      using assms(1-4) by (simp add: read_primary_def attr_exists_def)
    then have "load_recents w self [] = get_recents_legacy w self (tr @ [Exists js, Exists js])"
      using j assms(2) by (simp add: load_recents_def attr_exists_def)
    then show "get_recents w current_time stored_time self c =
              (case get_recents_legacy w self (tr @ [Exists js, Exists js]) of
                 (Inl e', tr') \<Rightarrow> (Inl e', c, tr')
               | (Inr recents, tr') \<Rightarrow>
                   (Inr recents,
                    \<lparr>cached_recents = Some recents, cache_timestamp = stored_time\<rparr>, tr'))"
      unfolding m by (simp add: refresh_recents_def)
  qed
qed

theorem primary_failure_witness:
  "get_recents broken_db_world 100 101 resolved_code
       \<lparr>cached_recents = Some [proj_entry], cache_timestamp = 0\<rparr> =
     (Inl ReadError, \<lparr>cached_recents = Some [proj_entry], cache_timestamp = 0\<rparr>,
      [Exists example_db, ReadGlobalState example_db, Exists example_json]) \<and>
   get_recents legacy_fallback_world 100 101 resolved_code
       \<lparr>cached_recents = Some [notes_entry], cache_timestamp = 0\<rparr> =
     (Inr [proj_entry], \<lparr>cached_recents = Some [proj_entry], cache_timestamp = 101\<rparr>,
      [Exists example_db, ReadGlobalState example_db, Exists example_json,
       Exists example_json, ReadLegacy example_json])"
proof -
  let ?c = "\<lparr>cached_recents = Some [proj_entry], cache_timestamp = 0\<rparr>"
  let ?c' = "\<lparr>cached_recents = Some [notes_entry], cache_timestamp = 0\<rparr>"
  have a: "global_state_db resolved_code = Some example_db"
          "storage_json resolved_code = Some example_json"
    by (simp_all add: resolved_code_def)
  have p: "path_exists broken_db_world example_db" "path_exists legacy_fallback_world example_db"
    by (simp_all add: broken_db_world_def legacy_fallback_world_def)
  have b: "get_recents_global_state broken_db_world resolved_code [Exists example_db] =
             (Inl ReadError, [Exists example_db, ReadGlobalState example_db])"
          "get_recents_global_state legacy_fallback_world resolved_code [Exists example_db] =
             (Inl ReadError, [Exists example_db, ReadGlobalState example_db])"
    by (simp_all add: get_recents_global_state_def resolved_code_def broken_db_world_def
        legacy_fallback_world_def)
  have c: "cached_recents ?c = None \<or> cached_recents ?c = Some [] \<or>
           \<not> 100 - cache_timestamp ?c < cache_duration"
          "cached_recents ?c' = None \<or> cached_recents ?c' = Some [] \<or>
           \<not> 100 - cache_timestamp ?c' < cache_duration"
    by (simp_all add: cache_duration_def)
  have d: "\<not> path_exists broken_db_world example_json"
          "path_exists legacy_fallback_world example_json"
    by (simp_all add: broken_db_world_def legacy_fallback_world_def example_db_def
        example_json_def)
  have l: "get_recents_legacy legacy_fallback_world resolved_code
             [Exists example_db, ReadGlobalState example_db, Exists example_json,
              Exists example_json] =
           (Inr [proj_entry],
            [Exists example_db, ReadGlobalState example_db, Exists example_json,
             Exists example_json, ReadLegacy example_json])"
    by (simp add: get_recents_legacy_def resolved_code_def legacy_fallback_world_def
        parse_entry_paths_def parse_entry_def make_entry_def filter_types_def proj_record_def
        proj_entry_def)
  from primary_failure[OF a p(1) b(1) c(1), of 101] d(1)
  have one: "get_recents broken_db_world 100 101 resolved_code ?c =
     (Inl ReadError, ?c, [Exists example_db, ReadGlobalState example_db, Exists example_json])"
    by simp
  from primary_failure[OF a p(2) b(2) c(2), of 101] d(2)
  have two: "get_recents legacy_fallback_world 100 101 resolved_code ?c' =
     (Inr [proj_entry], \<lparr>cached_recents = Some [proj_entry], cache_timestamp = 101\<rparr>,
      [Exists example_db, ReadGlobalState example_db, Exists example_json,
       Exists example_json, ReadLegacy example_json])"
    by (simp add: l)
  from one two show ?thesis
    by blast
qed

lemma parse_entry_paths_types:
  "parse_entry_paths entries (Some types) = Inr recents \<Longrightarrow> e \<in> set recents \<Longrightarrow>
     type e \<in> set types"
  by (auto simp: parse_entry_paths_def filter_types_def split: sum.splits if_splits)

lemma load_recents_types:
  assumes "load_recents w self tr = (Inr recents, tr')" "include_types self = Some types"
    "e \<in> set recents"
  shows "type e \<in> set types"
proof -
  have g: "get_recents_global_state w self t = (Inr rs, t') \<Longrightarrow> e \<in> set rs \<Longrightarrow>
             type e \<in> set types" for t rs t'
    using assms(2) parse_entry_paths_types
    by (auto simp: get_recents_global_state_def split: option.splits sum.splits)
  have l: "get_recents_legacy w self t = (Inr rs, t') \<Longrightarrow> e \<in> set rs \<Longrightarrow>
             type e \<in> set types" for t rs t'
    using assms(2) parse_entry_paths_types
    by (auto simp: get_recents_legacy_def split: option.splits sum.splits)
  have p: "read_primary w self t = (Inr rs, t') \<Longrightarrow> e \<in> set rs \<Longrightarrow>
             type e \<in> set types" for t rs t'
    using g
    by (auto simp: read_primary_def split: prod.splits sum.splits bool.splits)
  from assms(1,3) show ?thesis
    using p l
    by (auto simp: load_recents_def split: prod.splits sum.splits bool.splits if_splits)
qed

text \<open>
  Claim C2, as the code has it. A first query under the allow-set \<open>folder\<close> loads and
  caches a folder entry. The preference \<open>include_types\<close> is then updated to \<open>file\<close>.
  The next query, ten seconds later, is answered from the cache and scores the folder
  entry: the filter is applied when the sources are read, not when the cache is read.
\<close>

theorem stale_filter_after_update:
  "include_types (code (preferences_update ''include_types'' ''file'' folder_extension)) =
     Some [''file''] \<and>
   get_ext_result_items folder_history_world 100 101 folder_extension initial_cache [] =
     (Inr [\<lparr>recent = proj_entry, score_value = 0.99\<rparr>],
      \<lparr>cached_recents = Some [proj_entry], cache_timestamp = 101\<rparr>,
      [Exists example_db, ReadGlobalState example_db]) \<and>
   get_ext_result_items folder_history_world 110 111
       (preferences_update ''include_types'' ''file'' folder_extension)
       \<lparr>cached_recents = Some [proj_entry], cache_timestamp = 101\<rparr> [] =
     (Inr [\<lparr>recent = proj_entry, score_value = 0.99\<rparr>],
      \<lparr>cached_recents = Some [proj_entry], cache_timestamp = 101\<rparr>, []) \<and>
   type proj_entry = ''folder''"
proof -
  have s: "command_score ''proj'' [] [] = Inr 0.99"
          "command_score ''file:///home/u/proj'' [] [] = Inr 0.99"
    by (simp_all add: command_score_empty_query)
  have r: "rank_loop (Some []) [] [proj_entry] [] =
             Inr [\<lparr>recent = proj_entry, score_value = 0.99\<rparr>]"
    by (simp add: s proj_entry_def)
  have u: "include_types (code (preferences_update ''include_types'' ''file'' folder_extension)) =
     Some [''file'']"
    by (simp add: preferences_update_def folder_extension_def)
  have p: "prefer_type (preferences_update ''include_types'' ''file'' folder_extension) = Some []"
    by (simp add: preferences_update_def folder_extension_def)
  have g1: "get_recents folder_history_world 100 101 (code folder_extension) initial_cache =
     (Inr [proj_entry], \<lparr>cached_recents = Some [proj_entry], cache_timestamp = 101\<rparr>,
      [Exists example_db, ReadGlobalState example_db])"
    by (simp add: loader_defs folder_history_world_def resolved_code_def initial_cache_def
        parse_entry_paths_def parse_entry_def make_entry_def filter_types_def proj_record_def
        proj_entry_def folder_extension_def)
  have g2: "get_recents folder_history_world 110 111
       (code (preferences_update ''include_types'' ''file'' folder_extension))
       \<lparr>cached_recents = Some [proj_entry], cache_timestamp = 101\<rparr> =
     (Inr [proj_entry], \<lparr>cached_recents = Some [proj_entry], cache_timestamp = 101\<rparr>, [])"
    by (simp add: get_recents_def cache_duration_def)
  have k: "ranked [\<lparr>recent = proj_entry, score_value = 0.99\<rparr>] =
             [\<lparr>recent = proj_entry, score_value = 0.99\<rparr>]"
    by (simp add: ranked_def py_sorted_reverse_def)
  have f: "prefer_type folder_extension = Some []"
    by (simp add: folder_extension_def)
  have t: "type proj_entry = ''folder''"
    by (simp add: proj_entry_def)
  show ?thesis
    by (simp add: get_ext_result_items_def g1 g2 r u p f t ranked_def py_sorted_reverse_def
        del: rank_loop.simps)
qed

text \<open>
  Claim C2, amended. The allow-set filters the entries when they are loaded: every entry
  that \<open>parse_entry_paths\<close> returns under an allow-set, and so every entry that a call
  of \<open>get_recents\<close> which runs the loader returns, has its kind in the allow-set in
  force at that call (all of kind \<open>file\<close> for the allow-set \<open>file\<close>). A call
  answered from the cache returns the cached list as it is, whatever the allow-set is by
  then; a change to \<open>include_types\<close> takes effect at the next load.
\<close>

theorem filter_applied_at_load:
  "(parse_entry_paths entries (Some types) = Inr recents \<longrightarrow>
      (\<forall>e \<in> set recents. type e \<in> set types)) \<and>
   ((cached_recents c = None \<or> cached_recents c = Some [] \<or>
       \<not> current_time - cache_timestamp c < cache_duration) \<and>
    include_types self = Some types \<and>
    get_recents w current_time stored_time self c = (Inr loaded, c', tr)
      \<longrightarrow> (\<forall>e \<in> set loaded. type e \<in> set types)) \<and>
   (cached_recents c = Some E \<and> E \<noteq> [] \<and> current_time - cache_timestamp c < cache_duration
      \<longrightarrow> get_recents w current_time stored_time self c = (Inr E, c, []))"
proof (intro conjI impI ballI)
  fix e
  assume "parse_entry_paths entries (Some types) = Inr recents" "e \<in> set recents"
  then show "type e \<in> set types"
    by (rule parse_entry_paths_types)
next
  fix e
  assume a: "(cached_recents c = None \<or> cached_recents c = Some [] \<or>
       \<not> current_time - cache_timestamp c < cache_duration) \<and>
    include_types self = Some types \<and>
    get_recents w current_time stored_time self c = (Inr loaded, c', tr)"
    and e: "e \<in> set loaded"
  then have "refresh_recents w stored_time self c = (Inr loaded, c', tr)"
    using get_recents_miss[of c current_time w stored_time self] by simp
  then have "load_recents w self [] = (Inr loaded, tr)"
    by (auto simp: refresh_recents_def split: prod.splits sum.splits)
  with a e show "type e \<in> set types"
    using load_recents_types by blast
next
  assume "cached_recents c = Some E \<and> E \<noteq> [] \<and> current_time - cache_timestamp c < cache_duration"
  then show "get_recents w current_time stored_time self c = (Inr E, c, [])"
    by (simp add: get_recents_hit)
qed

theorem filter_applied_at_load_witness:
  "parse_entry_paths [proj_record, notes_record] (Some [''file'']) = Inr [notes_entry] \<and>
   type notes_entry \<in> set [''file''] \<and>
   get_recents mixed_history_world 100 101 (resolved_code\<lparr>include_types := Some [''file'']\<rparr>)
       initial_cache =
     (Inr [notes_entry], \<lparr>cached_recents = Some [notes_entry], cache_timestamp = 101\<rparr>,
      [Exists example_db, ReadGlobalState example_db]) \<and>
   get_recents mixed_history_world 110 111 resolved_code
       \<lparr>cached_recents = Some [notes_entry], cache_timestamp = 101\<rparr> =
     (Inr [notes_entry], \<lparr>cached_recents = Some [notes_entry], cache_timestamp = 101\<rparr>, [])"
proof -
  let ?self = "resolved_code\<lparr>include_types := Some [''file'']\<rparr>"
  let ?c1 = "\<lparr>cached_recents = Some [notes_entry], cache_timestamp = 101\<rparr>"
  have parsed: "parse_entry_paths [proj_record, notes_record] (Some [''file'']) = Inr [notes_entry]"
    by (simp add: parse_entry_paths_def parse_entry_def make_entry_def filter_types_def
        proj_record_def notes_record_def notes_entry_def)
  have loaded: "get_recents mixed_history_world 100 101 ?self initial_cache =
     (Inr [notes_entry], ?c1, [Exists example_db, ReadGlobalState example_db])"
    by (simp add: loader_defs mixed_history_world_def resolved_code_def initial_cache_def parsed)
  have miss: "cached_recents initial_cache = None \<or> cached_recents initial_cache = Some [] \<or>
       \<not> 100 - cache_timestamp initial_cache < cache_duration"
    by (simp add: initial_cache_def)
  have allowed: "include_types ?self = Some [''file'']"
    by simp
  have inside: "cached_recents ?c1 = Some [notes_entry] \<and> [notes_entry] \<noteq> [] \<and>
      110 - cache_timestamp ?c1 < cache_duration"
    by (simp add: cache_duration_def)
  note t = filter_applied_at_load[where entries = "[proj_record, notes_record]" and
      types = "[''file'']" and recents = "[notes_entry]" and c = initial_cache and
      current_time = 100 and self = ?self and w = mixed_history_world and stored_time = 101 and
      loaded = "[notes_entry]" and c' = ?c1 and
      tr = "[Exists example_db, ReadGlobalState example_db]"]
  note u = filter_applied_at_load[where c = ?c1 and E = "[notes_entry]" and current_time = 110 and
      w = mixed_history_world and stored_time = 111 and self = resolved_code]
  from t parsed have one: "type notes_entry \<in> set [''file'']"
    by simp
  from t miss allowed loaded have "\<forall>e \<in> set [notes_entry]. type e \<in> set [''file'']"
    by blast
  from u inside have two: "get_recents mixed_history_world 110 111 resolved_code ?c1 =
     (Inr [notes_entry], ?c1, [])"
    by blast
  from parsed one loaded two show ?thesis
    by blast
qed

end
